theory Spec2Isabelle
  imports Complex_Main
begin

section \<open>Text primitives\<close>

text \<open>
  Message text is a \<^typ>\<open>string\<close>: a character stands for the Unicode code point of its
  number, so the texts of the model are the Python strings over the code points 0 to 255. The
  patterns of the source are \<^verbatim>\<open>str\<close> patterns, whose classes \<^verbatim>\<open>\d\<close>,
  \<^verbatim>\<open>\w\<close> and \<^verbatim>\<open>\s\<close> follow Unicode; they and \<^verbatim>\<open>str.lower\<close> are
  given here as Python has them on these code points.
\<close>

text \<open>\<^verbatim>\<open>\d\<close>: below 256 the decimal digits are the ASCII ones.\<close>

definition is_digit :: "char \<Rightarrow> bool" where
  "is_digit c = (48 \<le> (of_char c :: nat) \<and> (of_char c :: nat) \<le> 57)"

text \<open>The letters A to Z and a to z.\<close>

definition is_alpha :: "char \<Rightarrow> bool" where
  "is_alpha c =
     ((65 \<le> (of_char c :: nat) \<and> (of_char c :: nat) \<le> 90) \<or>
      (97 \<le> (of_char c :: nat) \<and> (of_char c :: nat) \<le> 122))"

text \<open>
  The alphanumeric characters from 128 to 255: the ordinal indicators (170, 186), the
  superscript digits (178, 179, 185), the micro sign (181), the fractions (188 to 190) and the
  letters (192 to 255 without the multiplication and division signs 215 and 247).
\<close>

definition latin1_alnum :: "char \<Rightarrow> bool" where
  "latin1_alnum c =
     ((of_char c :: nat) = 170 \<or> (of_char c :: nat) = 178 \<or> (of_char c :: nat) = 179 \<or>
      (of_char c :: nat) = 181 \<or> (of_char c :: nat) = 185 \<or> (of_char c :: nat) = 186 \<or>
      (188 \<le> (of_char c :: nat) \<and> (of_char c :: nat) \<le> 190) \<or>
      (192 \<le> (of_char c :: nat) \<and> (of_char c :: nat) \<le> 214) \<or>
      (216 \<le> (of_char c :: nat) \<and> (of_char c :: nat) \<le> 246) \<or>
      (248 \<le> (of_char c :: nat) \<and> (of_char c :: nat) \<le> 255))"

text \<open>\<^verbatim>\<open>\w\<close>: an alphanumeric character or the underscore.\<close>

definition is_word :: "char \<Rightarrow> bool" where
  "is_word c = (is_alpha c \<or> is_digit c \<or> c = CHR ''_'' \<or> latin1_alnum c)"

text \<open>\<^verbatim>\<open>\s\<close>: tab, line feed, vertical tab, form feed, carriage return, the four
  separators 28 to 31, the space, the next-line character 133 and the no-break space 160.\<close>

definition is_space :: "char \<Rightarrow> bool" where
  "is_space c =
     ((9 \<le> (of_char c :: nat) \<and> (of_char c :: nat) \<le> 13) \<or>
      (28 \<le> (of_char c :: nat) \<and> (of_char c :: nat) \<le> 32) \<or>
      (of_char c :: nat) = 133 \<or> (of_char c :: nat) = 160)"

text \<open>
  \<^verbatim>\<open>str.lower\<close>, character by character: the capital letters are A to Z and the code
  points 192 to 222 without the multiplication sign 215; each has its small letter 32 places
  on.
\<close>

definition latin1_upper :: string where
  "latin1_upper =
     [CHR 0xC0, CHR 0xC1, CHR 0xC2, CHR 0xC3, CHR 0xC4, CHR 0xC5, CHR 0xC6, CHR 0xC7,
      CHR 0xC8, CHR 0xC9, CHR 0xCA, CHR 0xCB, CHR 0xCC, CHR 0xCD, CHR 0xCE, CHR 0xCF,
      CHR 0xD0, CHR 0xD1, CHR 0xD2, CHR 0xD3, CHR 0xD4, CHR 0xD5, CHR 0xD6,
      CHR 0xD8, CHR 0xD9, CHR 0xDA, CHR 0xDB, CHR 0xDC, CHR 0xDD, CHR 0xDE]"

definition latin1_lower :: string where
  "latin1_lower =
     [CHR 0xE0, CHR 0xE1, CHR 0xE2, CHR 0xE3, CHR 0xE4, CHR 0xE5, CHR 0xE6, CHR 0xE7,
      CHR 0xE8, CHR 0xE9, CHR 0xEA, CHR 0xEB, CHR 0xEC, CHR 0xED, CHR 0xEE, CHR 0xEF,
      CHR 0xF0, CHR 0xF1, CHR 0xF2, CHR 0xF3, CHR 0xF4, CHR 0xF5, CHR 0xF6,
      CHR 0xF8, CHR 0xF9, CHR 0xFA, CHR 0xFB, CHR 0xFC, CHR 0xFD, CHR 0xFE]"

definition lower_char :: "char \<Rightarrow> char" where
  "lower_char c =
     (case map_of (if (of_char c :: nat) < 128
                   then zip ''ABCDEFGHIJKLMNOPQRSTUVWXYZ'' ''abcdefghijklmnopqrstuvwxyz''
                   else zip latin1_upper latin1_lower) c of
        Some d \<Rightarrow> d
      | None \<Rightarrow> c)"

definition lower :: "string \<Rightarrow> string" where
  "lower s = map lower_char s"

text \<open>\<^verbatim>\<open>s.startswith(p)\<close>.\<close>

fun startswith :: "string \<Rightarrow> string \<Rightarrow> bool" where
  "startswith s [] = True"
| "startswith [] (p # ps) = False"
| "startswith (c # cs) (p # ps) = (c = p \<and> startswith cs ps)"

text \<open>\<^verbatim>\<open>k in s\<close> on strings: \<open>k\<close> occurs in \<open>s\<close> as a contiguous substring.\<close>

fun str_in :: "string \<Rightarrow> string \<Rightarrow> bool" where
  "str_in k [] = (k = [])"
| "str_in k (c # cs) = (startswith (c # cs) k \<or> str_in k cs)"

text \<open>\<^verbatim>\<open>any(w in s for w in ws)\<close>.\<close>

definition any_in :: "string list \<Rightarrow> string \<Rightarrow> bool" where
  "any_in ws s = list_ex (\<lambda>w. str_in w s) ws"

text \<open>\<^verbatim>\<open>sep.join(xs)\<close>.\<close>

fun join :: "string \<Rightarrow> string list \<Rightarrow> string" where
  "join sep [] = []"
| "join sep [x] = x"
| "join sep (x # y # ys) = x @ sep @ join sep (y # ys)"

text \<open>
  \<^verbatim>\<open>s.split(c)\<close> for a one-character separator (always at least one part), and
  indexing that raises \<^verbatim>\<open>IndexError\<close> out of range.
\<close>

fun split_on :: "char \<Rightarrow> string \<Rightarrow> string list" where
  "split_on sep [] = [[]]"
| "split_on sep (c # cs) =
     (if c = sep then [] # split_on sep cs
      else (case split_on sep cs of
              [] \<Rightarrow> [[c]]
            | p # ps \<Rightarrow> (c # p) # ps))"

datatype py_error = IndexError | HTTPException nat

definition index :: "'a list \<Rightarrow> nat \<Rightarrow> py_error + 'a" where
  "index xs i = (if i < length xs then Inr (xs ! i) else Inl IndexError)"

section \<open>Regular expressions of the source\<close>

text \<open>
  A pattern is modelled by its matcher at one position: given the character before the
  position (\<open>None\<close> at the start of the text) and the rest of the text, the length of
  the match the backtracking engine finds there, or \<open>None\<close>. No pattern of the source
  matches the empty string.
\<close>

type_synonym matcher = "char option \<Rightarrow> string \<Rightarrow> nat option"

text \<open>
  \<^verbatim>\<open>re.findall\<close>: scan from the left; where the pattern matches, emit the match and
  go on after it; where it does not, move one character on. Every pattern of the source has a
  single group spanning the whole pattern or none, so the result is the list of matched
  strings.
\<close>

function findall :: "matcher \<Rightarrow> char option \<Rightarrow> string \<Rightarrow> string list" where
  "findall m prev [] = []"
| "findall m prev (c # cs) =
     (case m prev (c # cs) of
        None \<Rightarrow> findall m (Some c) cs
      | Some n \<Rightarrow>
          (if n = 0 \<or> length (c # cs) < n then findall m (Some c) cs
           else take n (c # cs) # findall m (Some ((c # cs) ! (n - 1))) (drop n (c # cs))))"
  by pat_completeness auto
termination
  by (relation "measure (\<lambda>(m, prev, s). length s)") auto

text \<open>\<^verbatim>\<open>re.search(p, text)\<close> as a truth value.\<close>

definition re_search :: "matcher \<Rightarrow> string \<Rightarrow> bool" where
  "re_search m s = (findall m None s \<noteq> [])"

text \<open>\<^verbatim>\<open>\b\<close> between two neighbouring positions: exactly one side is a word character.\<close>

definition is_word_opt :: "char option \<Rightarrow> bool" where
  "is_word_opt c = (case c of None \<Rightarrow> False | Some x \<Rightarrow> is_word x)"

definition word_boundary :: "char option \<Rightarrow> char option \<Rightarrow> bool" where
  "word_boundary a b = (is_word_opt a \<noteq> is_word_opt b)"

definition char_at :: "string \<Rightarrow> nat \<Rightarrow> char option" where
  "char_at s i = (if i < length s then Some (s ! i) else None)"

text \<open>The character before offset \<open>n\<close> of the rest \<open>s\<close>, \<open>prev\<close> at offset 0.\<close>

definition char_before :: "char option \<Rightarrow> string \<Rightarrow> nat \<Rightarrow> char option" where
  "char_before prev s n = (if n = 0 then prev else char_at s (n - 1))"

text \<open>
  The pieces of a pattern, in continuation-passing style, each at an offset \<open>off\<close>
  into the rest \<open>s\<close> of the text; the continuation is the remainder of the pattern and
  returns the offset where the whole match ends.

  \<^item> \<open>lit\<close>: a literal string;
  \<^item> \<open>opt\<close>: \<^verbatim>\<open>c?\<close>, greedy: first with the character, then without;
  \<^item> \<open>rep\<close>: \<^verbatim>\<open>X{lo,hi}\<close> over a character class (\<open>hi = None\<close> for
    \<^verbatim>\<open>X+\<close> and \<^verbatim>\<open>X{lo,}\<close>), greedy: the engine takes as many characters as
    it can and gives them back one by one, down to \<open>lo\<close>, until the continuation accepts;
  \<^item> \<open>bnd\<close>: \<^verbatim>\<open>\b\<close>.
\<close>

fun first_some :: "(nat \<Rightarrow> nat option) \<Rightarrow> nat list \<Rightarrow> nat option" where
  "first_some cont [] = None"
| "first_some cont (k # ks) =
     (case cont k of Some r \<Rightarrow> Some r | None \<Rightarrow> first_some cont ks)"

definition lit :: "string \<Rightarrow> string \<Rightarrow> nat \<Rightarrow> (nat \<Rightarrow> nat option) \<Rightarrow> nat option" where
  "lit p s off cont = (if startswith (drop off s) p then cont (off + length p) else None)"

definition opt :: "char \<Rightarrow> string \<Rightarrow> nat \<Rightarrow> (nat \<Rightarrow> nat option) \<Rightarrow> nat option" where
  "opt c s off cont =
     (case (if char_at s off = Some c then cont (Suc off) else None) of
        Some r \<Rightarrow> Some r
      | None \<Rightarrow> cont off)"

definition rep ::
  "(char \<Rightarrow> bool) \<Rightarrow> nat \<Rightarrow> nat option \<Rightarrow> string \<Rightarrow> nat \<Rightarrow> (nat \<Rightarrow> nat option) \<Rightarrow> nat option" where
  "rep cls lo hi s off cont =
     (let run = length (takeWhile cls (drop off s));
          k = (case hi of None \<Rightarrow> run | Some h \<Rightarrow> min h run)
      in first_some cont (rev [off + lo ..< Suc (off + k)]))"

definition bnd :: "char option \<Rightarrow> string \<Rightarrow> nat \<Rightarrow> (nat \<Rightarrow> nat option) \<Rightarrow> nat option" where
  "bnd prev s off cont =
     (if word_boundary (char_before prev s off) (char_at s off) then cont off else None)"

text \<open>\<^verbatim>\<open>\b(\d{9,18})\b\<close>\<close>

definition match_bank :: matcher where
  "match_bank prev s =
     bnd prev s 0 (\<lambda>i. rep is_digit 9 (Some 18) s i (\<lambda>j. bnd prev s j Some))"

text \<open>\<^verbatim>\<open>([\w.-]+@[\w.-]+)\<close>\<close>

definition cls_upi :: "char \<Rightarrow> bool" where
  "cls_upi c = (is_word c \<or> c = CHR ''.'' \<or> c = CHR ''-'')"

definition match_upi :: matcher where
  "match_upi prev s =
     rep cls_upi 1 None s 0 (\<lambda>i. lit ''@'' s i (\<lambda>j. rep cls_upi 1 None s j Some))"

text \<open>\<^verbatim>\<open>(\+?\d{10,13})\<close>\<close>

definition match_phone :: matcher where
  "match_phone prev s = opt CHR ''+'' s 0 (\<lambda>i. rep is_digit 10 (Some 13) s i Some)"

text \<open>\<^verbatim>\<open>(http[s]?://[^\s<>"\']+)\<close>\<close>

definition cls_url :: "char \<Rightarrow> bool" where
  "cls_url c =
     (\<not> (is_space c \<or> c = CHR ''<'' \<or> c = CHR ''>'' \<or> c = CHR 0x22 \<or> c = CHR 0x27))"

definition match_link :: matcher where
  "match_link prev s =
     lit ''http'' s 0 (\<lambda>i. opt CHR ''s'' s i (\<lambda>j. lit ''://'' s j
       (\<lambda>k. rep cls_url 1 None s k Some)))"

text \<open>\<^verbatim>\<open>\d{10,}\<close>\<close>

definition match_digits10 :: matcher where
  "match_digits10 prev s = rep is_digit 10 None s 0 Some"

text \<open>\<^verbatim>\<open>http[s]?://\<close>\<close>

definition match_scheme :: matcher where
  "match_scheme prev s =
     lit ''http'' s 0 (\<lambda>i. opt CHR ''s'' s i (\<lambda>j. lit ''://'' s j Some))"

text \<open>\<^verbatim>\<open>[A-Z0-9._%+-]+@[A-Z0-9.-]+\.[A-Z]{2,}\<close> under \<^verbatim>\<open>re.I\<close>: the letter
  ranges take both cases (below 256 that is A to Z and a to z, which is \<open>is_alpha\<close>).\<close>

definition cls_email_local :: "char \<Rightarrow> bool" where
  "cls_email_local c = (is_alpha c \<or> is_digit c \<or> c \<in> set ''._%+-'')"

definition cls_email_domain :: "char \<Rightarrow> bool" where
  "cls_email_domain c = (is_alpha c \<or> is_digit c \<or> c \<in> set ''.-'')"

definition match_email :: matcher where
  "match_email prev s =
     rep cls_email_local 1 None s 0 (\<lambda>i. lit ''@'' s i (\<lambda>j. rep cls_email_domain 1 None s j
       (\<lambda>k. lit ''.'' s k (\<lambda>l. rep is_alpha 2 None s l Some))))"

section \<open>Intent scorer\<close>

definition SCAM_PATTERNS :: "(string \<times> string list) list" where
  "SCAM_PATTERNS =
     [(''urgency'', [''immediately'', ''urgent'', ''now'', ''today'', ''expire'', ''limited time'']),
      (''financial'', [''bank'', ''account'', ''upi'', ''payment'', ''transfer'', ''verify'',
                       ''suspend'', ''block'']),
      (''threats'', [''blocked'', ''suspended'', ''legal action'', ''arrest'', ''penalty'', ''fine'']),
      (''requests'', [''share'', ''send'', ''provide'', ''click'', ''download'', ''install'',
                      ''update'']),
      (''impersonation'', [''bank'', ''government'', ''police'', ''income tax'', ''customs'', ''rbi'']),
      (''reward'', [''won'', ''prize'', ''lottery'', ''reward'', ''cashback'', ''free'', ''offer''])]"

text \<open>The nested loop over categories and their keywords visits these pairs in this order.\<close>

definition keyword_pairs :: "(string \<times> string) list" where
  "keyword_pairs = concat (map (\<lambda>(category, keywords). map (Pair category) keywords) SCAM_PATTERNS)"

text \<open>
  The keyword loop of \<^verbatim>\<open>detect_scam_intent\<close>, on the pair
  \<^verbatim>\<open>(detected_patterns, score)\<close>. The score is a Python float; it is modelled by a
  real number.
\<close>

fun scan_keywords :: "string \<Rightarrow> (string \<times> string) list \<Rightarrow> string list \<times> real \<Rightarrow> string list \<times> real" where
  "scan_keywords text_lower [] acc = acc"
| "scan_keywords text_lower ((category, keyword) # rest) (detected_patterns, score) =
     (if str_in keyword text_lower
      then scan_keywords text_lower rest
             (detected_patterns @ [category @ '':'' @ keyword], score + 0.15)
      else scan_keywords text_lower rest (detected_patterns, score))"

text \<open>The score before clamping, with the tags: the keyword loop, then the three heuristics.\<close>

definition raw_score :: "string \<Rightarrow> string list \<times> real" where
  "raw_score text =
     (let text_lower = lower text;
          (p0, s0) = scan_keywords text_lower keyword_pairs ([], 0);
          (p1, s1) = (if re_search match_digits10 text
                      then (p0 @ [''phone_number_present''], s0 + 0.2) else (p0, s0));
          (p2, s2) = (if re_search match_scheme text
                      then (p1 @ [''link_present''], s1 + 0.25) else (p1, s1));
          (p3, s3) = (if re_search match_email text
                      then (p2 @ [''email_present''], s2 + 0.15) else (p2, s2))
      in (p3, s3))"

definition detect_scam_intent :: "string \<Rightarrow> bool \<times> real \<times> string list" where
  "detect_scam_intent text =
     (let (detected_patterns, score) = raw_score text;
          is_scam = (score \<ge> 0.3);
          confidence = min score 1.0
      in (is_scam, confidence, detected_patterns))"

section \<open>Intelligence extractor\<close>

text \<open>The field \<^verbatim>\<open>value\<close> of the source is \<open>ivalue\<close> here.\<close>

record IntelligenceItem =
  ivalue :: string
  confidence :: real
  extractedAt :: int
  extractionMethod :: string

record ExtractedIntelligence =
  bankAccounts :: "IntelligenceItem list"
  upiIds :: "IntelligenceItem list"
  phishingLinks :: "IntelligenceItem list"
  phoneNumbers :: "IntelligenceItem list"
  suspiciousKeywords :: "string list"

text \<open>\<^verbatim>\<open>any(item.value == v for item in items)\<close>\<close>

definition stored :: "string \<Rightarrow> IntelligenceItem list \<Rightarrow> bool" where
  "stored v items = list_ex (\<lambda>item. ivalue item = v) items"

text \<open>The body of the bank-account loop.\<close>

definition add_bank :: "int \<Rightarrow> IntelligenceItem list \<Rightarrow> string \<Rightarrow> IntelligenceItem list" where
  "add_bank ts items acc =
     (let conf = (if 11 \<le> length acc \<and> length acc \<le> 16 then 0.9 else 0.6)
      in if \<not> stored acc items
         then items @ [\<lparr>ivalue = acc, confidence = conf, extractedAt = ts,
                         extractionMethod = ''regex_bank''\<rparr>]
         else items)"

definition email_domains :: "string list" where
  "email_domains = [''gmail'', ''yahoo'', ''hotmail'', ''outlook'', ''mail'', ''protonmail'', ''icloud'']"

definition upi_patterns :: "string list" where
  "upi_patterns = [''paytm'', ''phonepe'', ''gpay'', ''upi'', ''okaxis'', ''ybl'', ''okhdfcbank'',
                   ''oksbi'', ''axl'', ''fakebank'', ''bank'']"

text \<open>
  \<^verbatim>\<open>any(domain in upi_lower for domain in email_domains) and '.' in upi_lower.split('@')[1]\<close>:
  the right operand, and with it the indexing that may raise, is evaluated only when the left
  one holds.
\<close>

definition is_email :: "string \<Rightarrow> py_error + bool" where
  "is_email upi_lower =
     (if any_in email_domains upi_lower
      then (case index (split_on CHR ''@'' upi_lower) 1 of
              Inl e \<Rightarrow> Inl e
            | Inr d \<Rightarrow> Inr (str_in ''.'' d))
      else Inr False)"

text \<open>The payment-handle loop; an exception ends it.\<close>

fun upi_loop :: "int \<Rightarrow> string list \<Rightarrow> IntelligenceItem list \<Rightarrow> py_error + IntelligenceItem list" where
  "upi_loop ts [] items = Inr items"
| "upi_loop ts (upi # rest) items =
     (let upi_lower = lower upi
      in case is_email upi_lower of
           Inl e \<Rightarrow> Inl e
         | Inr is_em \<Rightarrow>
             (let is_upi = (any_in upi_patterns upi_lower \<or> \<not> is_em)
              in if is_upi \<and> \<not> stored upi items
                 then upi_loop ts rest
                        (items @ [\<lparr>ivalue = upi,
                                    confidence = (if any_in (take 9 upi_patterns) upi_lower
                                                  then 0.95 else 0.8),
                                    extractedAt = ts, extractionMethod = ''regex_upi''\<rparr>])
                 else upi_loop ts rest items))"

definition add_phone :: "int \<Rightarrow> IntelligenceItem list \<Rightarrow> string \<Rightarrow> IntelligenceItem list" where
  "add_phone ts items phone =
     (let conf = (if startswith phone ''+'' then 0.9 else 0.7)
      in if \<not> stored phone items
         then items @ [\<lparr>ivalue = phone, confidence = conf, extractedAt = ts,
                         extractionMethod = ''regex_phone''\<rparr>]
         else items)"

definition add_link :: "int \<Rightarrow> IntelligenceItem list \<Rightarrow> string \<Rightarrow> IntelligenceItem list" where
  "add_link ts items link =
     (if \<not> stored link items
      then items @ [\<lparr>ivalue = link, confidence = 1.0, extractedAt = ts,
                      extractionMethod = ''regex_url''\<rparr>]
      else items)"

definition add_keyword :: "string \<Rightarrow> string list \<Rightarrow> string \<times> string \<Rightarrow> string list" where
  "add_keyword text_lower kws ck =
     (if str_in (snd ck) text_lower \<and> snd ck \<notin> set kws then kws @ [snd ck] else kws)"

text \<open>
  \<^verbatim>\<open>extract_intelligence(text, existing)\<close>. The source appends to \<open>existing\<close> in place
  and returns it; the model returns the updated value. \<open>ts\<close> is the clock reading
  \<^verbatim>\<open>int(datetime.now().timestamp() * 1000)\<close> taken at the start of the call.
\<close>

definition extract_intelligence :: "int \<Rightarrow> string \<Rightarrow> ExtractedIntelligence \<Rightarrow> py_error + ExtractedIntelligence" where
  "extract_intelligence ts text existing =
     (let banks = foldl (add_bank ts) (bankAccounts existing) (findall match_bank None text)
      in case upi_loop ts (findall match_upi None text) (upiIds existing) of
           Inl e \<Rightarrow> Inl e
         | Inr upis \<Rightarrow>
             (let phones = foldl (add_phone ts) (phoneNumbers existing) (findall match_phone None text);
                  links = foldl (add_link ts) (phishingLinks existing) (findall match_link None text);
                  kws = foldl (add_keyword (lower text)) (suspiciousKeywords existing) keyword_pairs
              in Inr \<lparr>bankAccounts = banks, upiIds = upis, phishingLinks = links,
                      phoneNumbers = phones, suspiciousKeywords = kws\<rparr>))"

definition no_intelligence :: ExtractedIntelligence where
  "no_intelligence =
     \<lparr>bankAccounts = [], upiIds = [], phishingLinks = [], phoneNumbers = [],
      suspiciousKeywords = []\<rparr>"

section \<open>Session state\<close>

text \<open>
  The stage and persona names are strings in the source; each is drawn from a fixed set, which
  is a datatype here.
\<close>

datatype stage =
  HOOK | TRUST_BUILDING | PAYMENT_ASK | CREDENTIAL_REQUEST | LINK_DROP | CLOSING | EXPLORATORY

datatype persona = YOUNG_NAIVE | ELDERLY_CONFUSED | EXCITED_SKEPTICAL | WORRIED_PARENT

text \<open>The field \<^verbatim>\<open>text\<close> of a message is \<open>mtext\<close> here.\<close>

record Message =
  sender :: string
  mtext :: string
  timestamp :: int

text \<open>
  The per-session dictionary. The keys \<^verbatim>\<open>scam_confidence\<close>, \<^verbatim>\<open>scam_patterns\<close>,
  \<^verbatim>\<open>callback_status\<close> and \<^verbatim>\<open>callback_error\<close> are absent until first written,
  hence options. The keys \<^verbatim>\<open>created_at\<close>, \<^verbatim>\<open>typing_timestamps\<close> and
  \<^verbatim>\<open>agent_notes\<close> hold clock readings and formatted text that no decision of the
  handler reads; they are left out.
\<close>

record session_data =
  conversation_history :: "Message list"
  intelligence :: ExtractedIntelligence
  scam_detected :: bool
  message_count :: int
  callback_sent :: bool
  persona :: persona
  current_stage :: stage
  scam_confidence :: "real option"
  scam_patterns :: "string list option"
  callback_status :: "int option"
  callback_error :: "string option"

section \<open>Stage classifier\<close>

definition detect_scam_stage :: "session_data \<Rightarrow> string \<Rightarrow> stage" where
  "detect_scam_stage sd new_message =
     (let text_lower = lower new_message
      in if message_count sd \<le> 2 \<and>
            any_in [''urgent'', ''blocked'', ''suspended'', ''expired'', ''alert'', ''warning'',
                    ''attention''] text_lower
         then HOOK
         else if any_in [''bank'', ''government'', ''police'', ''officer'', ''department'',
                         ''official'', ''rbi'', ''income tax''] text_lower \<and>
                 message_count sd \<le> 4
         then TRUST_BUILDING
         else if any_in [''pay'', ''send'', ''transfer'', ''amount'', ''fee'', ''penalty'', ''fine'',
                         ''deposit'', ''rupees'', ''rs''] text_lower
         then PAYMENT_ASK
         else if any_in [''share'', ''provide'', ''enter'', ''otp'', ''password'', ''cvv'', ''pin'',
                         ''card number'', ''details''] text_lower
         then CREDENTIAL_REQUEST
         else if str_in ''http'' text_lower \<or> str_in ''link'' text_lower \<or>
                 str_in ''.com'' text_lower \<or> str_in ''click'' text_lower
         then LINK_DROP
         else if length (bankAccounts (intelligence sd)) > 0 \<or>
                 length (upiIds (intelligence sd)) > 0
         then CLOSING
         else EXPLORATORY)"

section \<open>Persona selector\<close>

text \<open>The second argument of the source, the request metadata, is never read.\<close>

definition select_persona :: "string list \<Rightarrow> persona" where
  "select_persona patterns =
     (let patterns_str = (if patterns \<noteq> [] then lower (join '' '' patterns) else [])
      in if any_in [''link'', ''download'', ''app'', ''update'', ''install''] patterns_str
         then YOUNG_NAIVE
         else if any_in [''government'', ''police'', ''tax'', ''pension'', ''rbi'', ''customs'',
                         ''arrest''] patterns_str
         then ELDERLY_CONFUSED
         else if any_in [''won'', ''prize'', ''lottery'', ''reward'', ''winner'',
                         ''congratulations''] patterns_str
         then EXCITED_SKEPTICAL
         else WORRIED_PARENT)"

section \<open>Finalization predicate\<close>

definition should_finalize_session :: "session_data \<Rightarrow> bool" where
  "should_finalize_session sd =
     (let intel = intelligence sd;
          has_critical_intel =
            (length (bankAccounts intel) > 0 \<or> length (upiIds intel) > 0 \<or>
             length (phishingLinks intel) > 0 \<or> length (phoneNumbers intel) > 1)
      in message_count sd \<ge> 15 \<or> (message_count sd \<ge> 8 \<and> has_critical_intel))"

section \<open>Database\<close>

text \<open>
  The tables of \<^verbatim>\<open>database.py\<close> that the handler writes, without the columns that
  default to the clock. \<^verbatim>\<open>sessions\<close> is keyed by its primary key and
  \<^verbatim>\<open>scammers\<close> by its \<^verbatim>\<open>UNIQUE\<close> column \<^verbatim>\<open>identifier\<close>; the other
  tables are lists of rows in insertion order.
\<close>

record session_row =
  row_persona :: persona
  row_final_stage :: stage
  row_message_count :: int
  row_scam_detected :: bool
  row_scam_confidence :: real
  row_status :: string

record scammer_row =
  identifier_type :: string
  session_count :: int

text \<open>A callback body: the values of the items, without their confidence.\<close>

record FinalResultPayload =
  p_sessionId :: string
  p_totalMessagesExchanged :: int
  p_bankAccounts :: "string list"
  p_upiIds :: "string list"
  p_phishingLinks :: "string list"
  p_phoneNumbers :: "string list"
  p_suspiciousKeywords :: "string list"

text \<open>
  Everything the handler reads and writes outside its arguments: the process-wide
  \<^verbatim>\<open>sessions\<close> dictionary, the database tables, and the requests posted to the
  callback address.
\<close>

record world =
  sessions :: "string \<rightharpoonup> session_data"
  sessions_table :: "string \<rightharpoonup> session_row"
  messages_table :: "(string \<times> string \<times> string) list"
  intelligence_table :: "(string \<times> string \<times> string \<times> real \<times> string) list"
  scammers_table :: "string \<rightharpoonup> scammer_row"
  network_links_table :: "(string \<times> string \<times> string) list"
  callback_posts :: "FinalResultPayload list"

definition session_row_of :: "session_data \<Rightarrow> string \<Rightarrow> session_row" where
  "session_row_of sd st =
     \<lparr>row_persona = persona sd, row_final_stage = current_stage sd,
      row_message_count = message_count sd, row_scam_detected = scam_detected sd,
      row_scam_confidence = (case scam_confidence sd of None \<Rightarrow> 0.0 | Some c \<Rightarrow> c),
      row_status = st\<rparr>"

text \<open>\<^verbatim>\<open>INSERT ... ON CONFLICT(session_id) DO UPDATE\<close> of every modelled column.\<close>

definition save_session :: "string \<Rightarrow> session_data \<Rightarrow> world \<Rightarrow> world" where
  "save_session session_id sd w =
     w\<lparr>sessions_table := (sessions_table w)(session_id \<mapsto> session_row_of sd ''active'')\<rparr>"

text \<open>\<^verbatim>\<open>UPDATE sessions SET ... WHERE session_id = ?\<close>: nothing without the row.\<close>

definition end_session :: "string \<Rightarrow> session_data \<Rightarrow> world \<Rightarrow> world" where
  "end_session session_id sd w =
     (case sessions_table w session_id of
        None \<Rightarrow> w
      | Some r \<Rightarrow>
          w\<lparr>sessions_table := (sessions_table w)(session_id \<mapsto> session_row_of sd ''completed'')\<rparr>)"

definition save_message :: "string \<Rightarrow> string \<Rightarrow> string \<Rightarrow> world \<Rightarrow> world" where
  "save_message session_id sndr tx w =
     w\<lparr>messages_table := messages_table w @ [(session_id, sndr, tx)]\<rparr>"

text \<open>
  \<^verbatim>\<open>save_intelligence\<close>. The table \<^verbatim>\<open>intelligence\<close> has no uniqueness
  constraint besides its generated key, so \<^verbatim>\<open>INSERT OR IGNORE\<close> always inserts. The
  upsert of \<^verbatim>\<open>scammers\<close> inserts the identifier with count 1, or on conflict adds 1
  to the count of the row that is there.
\<close>

definition save_intelligence :: "string \<Rightarrow> string \<Rightarrow> string \<Rightarrow> real \<Rightarrow> string \<Rightarrow> world \<Rightarrow> world" where
  "save_intelligence session_id intel_type v conf method w =
     w\<lparr>intelligence_table := intelligence_table w @ [(session_id, intel_type, v, conf, method)],
       scammers_table :=
         (case scammers_table w v of
            None \<Rightarrow> (scammers_table w)(v \<mapsto> \<lparr>identifier_type = intel_type, session_count = 1\<rparr>)
          | Some r \<Rightarrow> (scammers_table w)(v \<mapsto> r\<lparr>session_count := session_count r + 1\<rparr>))\<rparr>"

text \<open>
  \<^verbatim>\<open>INSERT OR IGNORE INTO network_links\<close> under
  \<^verbatim>\<open>UNIQUE(source_identifier, target_identifier, session_id)\<close>.
\<close>

definition insert_link :: "(string \<times> string \<times> string) list \<Rightarrow> string \<times> string \<times> string \<Rightarrow> (string \<times> string \<times> string) list" where
  "insert_link links row = (if row \<in> set links then links else links @ [row])"

text \<open>The index pairs \<open>i < j\<close> of the nested loop, in the order the loop visits them.\<close>

fun pairs :: "'a list \<Rightarrow> ('a \<times> 'a) list" where
  "pairs [] = []"
| "pairs (x # xs) = map (Pair x) xs @ pairs xs"

text \<open>An item of \<^verbatim>\<open>intel_items\<close> is a dictionary with keys \<^verbatim>\<open>value\<close> and
  \<^verbatim>\<open>type\<close>: a pair here.\<close>

definition link_rows :: "string \<Rightarrow> (string \<times> string) list \<Rightarrow> (string \<times> string \<times> string) list" where
  "link_rows session_id intel_items =
     map (\<lambda>(a, b). (a, b, session_id)) (pairs (map fst intel_items))"

definition build_network_links :: "string \<Rightarrow> (string \<times> string) list \<Rightarrow> world \<Rightarrow> world" where
  "build_network_links session_id intel_items w =
     w\<lparr>network_links_table :=
         foldl insert_link (network_links_table w) (link_rows session_id intel_items)\<rparr>"

section \<open>Session orchestrator\<close>

text \<open>
  What a request brings, and what the outside supplies while it is handled. Of the request
  body the handler reads the session identifier and the message (not the history and metadata
  sent along); the header \<^verbatim>\<open>x-api-key\<close> may be missing.
\<close>

record ConversationRequest =
  sessionId :: string
  message :: Message

record config =
  API_KEY_SECRET :: string
  GROQ_API_KEY :: string

text \<open>
  \<^item> \<open>now_ms\<close>: the clock, in milliseconds;
  \<^item> \<open>llm_reply\<close>: the cleaned reply of the language model when one of the two attempts
    answers with status 200, \<open>None\<close> when both fail (rate limit, error status, timeout or
    any other exception);
  \<^item> \<open>fallback_reply\<close>: the sentence \<^verbatim>\<open>random.choice\<close> picks in
    \<^verbatim>\<open>get_smart_fallback\<close>;
  \<^item> \<open>callback_result\<close>: the status code of the callback request, or the text of the
    exception it raised.
\<close>

record env =
  now_ms :: int
  llm_reply :: "string option"
  fallback_reply :: string
  callback_result :: "string + int"

record AgentResponse =
  status :: string
  reply :: string

definition new_session :: session_data where
  "new_session =
     \<lparr>conversation_history = [], intelligence = no_intelligence, scam_detected = False,
      message_count = 0, callback_sent = False, persona = WORRIED_PARENT,
      current_stage = EXPLORATORY, scam_confidence = None, scam_patterns = None,
      callback_status = None, callback_error = None\<rparr>"

text \<open>
  \<^verbatim>\<open>build_agent_prompt\<close>: the prompt text goes to the language model only; what stays
  is the assignment to \<^verbatim>\<open>session_data['current_stage']\<close>.
\<close>

definition build_agent_prompt :: "session_data \<Rightarrow> string \<Rightarrow> session_data" where
  "build_agent_prompt sd new_message = sd\<lparr>current_stage := detect_scam_stage sd new_message\<rparr>"

text \<open>
  \<^verbatim>\<open>generate_agent_response\<close>: without an API key the fallback is returned at once,
  before the prompt is built; with one, the prompt is built and then the attempts are made.
\<close>

definition generate_agent_response :: "config \<Rightarrow> env \<Rightarrow> session_data \<Rightarrow> string \<Rightarrow> string \<times> session_data" where
  "generate_agent_response cfg e sd new_message =
     (if GROQ_API_KEY cfg = [] then (fallback_reply e, sd)
      else (let sd' = build_agent_prompt sd new_message
            in (case llm_reply e of Some r \<Rightarrow> r | None \<Rightarrow> fallback_reply e, sd')))"

definition final_payload :: "string \<Rightarrow> session_data \<Rightarrow> FinalResultPayload" where
  "final_payload session_id sd =
     \<lparr>p_sessionId = session_id,
      p_totalMessagesExchanged = message_count sd,
      p_bankAccounts = map ivalue (bankAccounts (intelligence sd)),
      p_upiIds = map ivalue (upiIds (intelligence sd)),
      p_phishingLinks = map ivalue (phishingLinks (intelligence sd)),
      p_phoneNumbers = map ivalue (phoneNumbers (intelligence sd)),
      p_suspiciousKeywords = take 20 (suspiciousKeywords (intelligence sd))\<rparr>"

text \<open>
  \<^verbatim>\<open>send_final_callback\<close>: the request is posted; a response sets
  \<^verbatim>\<open>callback_sent\<close>, an exception clears it and records the error.
\<close>

definition send_final_callback :: "string \<Rightarrow> env \<Rightarrow> session_data \<times> world \<Rightarrow> session_data \<times> world" where
  "send_final_callback session_id e sw =
     (let sd = fst sw;
          w = snd sw;
          w' = w\<lparr>callback_posts := callback_posts w @ [final_payload session_id sd]\<rparr>
      in case callback_result e of
           Inr code \<Rightarrow> (sd\<lparr>callback_sent := True, callback_status := Some code\<rparr>, w')
         | Inl err \<Rightarrow> (sd\<lparr>callback_sent := False, callback_error := Some err\<rparr>, w'))"

text \<open>The four loops that persist every item of the session's intelligence.\<close>

definition save_items :: "string \<Rightarrow> string \<Rightarrow> IntelligenceItem list \<Rightarrow> world \<Rightarrow> world" where
  "save_items session_id intel_type items w =
     foldl (\<lambda>w' item. save_intelligence session_id intel_type (ivalue item) (confidence item)
                         (extractionMethod item) w') w items"

definition save_all_intelligence :: "string \<Rightarrow> ExtractedIntelligence \<Rightarrow> world \<Rightarrow> world" where
  "save_all_intelligence session_id intel w =
     save_items session_id ''link'' (phishingLinks intel)
       (save_items session_id ''phone'' (phoneNumbers intel)
         (save_items session_id ''upi_id'' (upiIds intel)
           (save_items session_id ''bank_account'' (bankAccounts intel) w)))"

text \<open>The list \<^verbatim>\<open>all_items\<close> handed to \<^verbatim>\<open>build_network_links\<close>.\<close>

definition all_items :: "ExtractedIntelligence \<Rightarrow> (string \<times> string) list" where
  "all_items intel =
     map (\<lambda>item. (ivalue item, ''bank_account'')) (bankAccounts intel) @
     map (\<lambda>item. (ivalue item, ''upi_id'')) (upiIds intel) @
     map (\<lambda>item. (ivalue item, ''phone'')) (phoneNumbers intel) @
     map (\<lambda>item. (ivalue item, ''link'')) (phishingLinks intel)"

text \<open>The blocks of \<^verbatim>\<open>honeypot_conversation\<close>, in the order of the source.\<close>

definition receive_message :: "Message \<Rightarrow> session_data \<Rightarrow> session_data" where
  "receive_message msg sd =
     sd\<lparr>conversation_history := conversation_history sd @ [msg],
        message_count := message_count sd + 1\<rparr>"

definition first_message_block :: "string \<Rightarrow> session_data \<Rightarrow> session_data" where
  "first_message_block new_message sd =
     (if message_count sd = 1
      then (case detect_scam_intent new_message of
              (is_scam, conf, patterns) \<Rightarrow>
                sd\<lparr>scam_detected := is_scam, scam_confidence := Some conf,
                   scam_patterns := Some patterns, persona := select_persona patterns\<rparr>)
      else sd)"

definition extraction_block :: "int \<Rightarrow> string \<Rightarrow> Message \<Rightarrow> session_data \<times> world \<Rightarrow> py_error + session_data \<times> world" where
  "extraction_block ts session_id msg sw =
     (if sender msg = ''scammer''
      then (case extract_intelligence ts (mtext msg) (intelligence (fst sw)) of
              Inl err \<Rightarrow> Inl err
            | Inr intel \<Rightarrow>
                Inr ((fst sw)\<lparr>intelligence := intel\<rparr>,
                     save_all_intelligence session_id intel (snd sw)))
      else Inr sw)"

definition reply_block :: "config \<Rightarrow> env \<Rightarrow> string \<Rightarrow> session_data \<Rightarrow> string \<times> session_data" where
  "reply_block cfg e new_message sd =
     (case generate_agent_response cfg e sd new_message of
        (agent_reply, sd') \<Rightarrow>
          (agent_reply,
           sd'\<lparr>conversation_history :=
                 conversation_history sd' @
                   [\<lparr>sender = ''user'', mtext = agent_reply, timestamp = now_ms e\<rparr>]\<rparr>))"

definition finalization_block :: "string \<Rightarrow> env \<Rightarrow> session_data \<times> world \<Rightarrow> session_data \<times> world" where
  "finalization_block session_id e sw =
     (if scam_detected (fst sw) \<and> \<not> callback_sent (fst sw) \<and> should_finalize_session (fst sw)
      then (case send_final_callback session_id e sw of
              (sd', w') \<Rightarrow>
                (sd', end_session session_id sd'
                        (build_network_links session_id (all_items (intelligence sd')) w')))
      else sw)"

text \<open>
  The handler. A wrong key raises \<^verbatim>\<open>HTTPException(401)\<close> before anything is touched.
  The session dictionary is looked up or created, mutated through the blocks, and is in
  \<^verbatim>\<open>sessions\<close> at the end; an exception leaves the handler with the error.
\<close>

definition honeypot_conversation ::
  "config \<Rightarrow> env \<Rightarrow> ConversationRequest \<Rightarrow> string option \<Rightarrow> world \<Rightarrow> py_error + AgentResponse \<times> world" where
  "honeypot_conversation cfg e request x_api_key w =
     (if x_api_key \<noteq> Some (API_KEY_SECRET cfg) then Inl (HTTPException 401)
      else
        (let session_id = sessionId request;
             msg = message request;
             sd0 = (case sessions w session_id of None \<Rightarrow> new_session | Some sd \<Rightarrow> sd);
             sd1 = receive_message msg sd0;
             w1 = save_message session_id (sender msg) (mtext msg) (save_session session_id sd1 w);
             sd2 = first_message_block (mtext msg) sd1
         in case extraction_block (now_ms e) session_id msg (sd2, w1) of
              Inl err \<Rightarrow> Inl err
            | Inr (sd3, w3) \<Rightarrow>
                (case reply_block cfg e (mtext msg) sd3 of
                   (agent_reply, sd4) \<Rightarrow>
                     (case finalization_block session_id e (sd4, w3) of
                        (sd5, w5) \<Rightarrow>
                          Inr (\<lparr>status = ''success'', reply = agent_reply\<rparr>,
                               w5\<lparr>sessions := (sessions w5)(session_id \<mapsto> sd5)\<rparr>)))))"

text \<open>A sequence of requests, handled one after the other; an exception ends the run.\<close>

fun run :: "config \<Rightarrow> (env \<times> ConversationRequest \<times> string option) list \<Rightarrow> world \<Rightarrow> py_error + world" where
  "run cfg [] w = Inr w"
| "run cfg ((e, request, x_api_key) # rest) w =
     (case honeypot_conversation cfg e request x_api_key w of
        Inl err \<Rightarrow> Inl err
      | Inr (response, w') \<Rightarrow> run cfg rest w')"

definition empty_world :: world where
  "empty_world =
     \<lparr>sessions = Map.empty, sessions_table = Map.empty, messages_table = [],
      intelligence_table = [], scammers_table = Map.empty, network_links_table = [],
      callback_posts = []\<rparr>"

section \<open>Reference quantities\<close>

text \<open>
  The sum the scorer's confidence is measured against, written as the specification words it:
  0.15 for every keyword of the category tables found in the lowered text (a keyword listed
  under two categories counts twice), 0.2 for a run of ten or more digits, 0.25 for a link
  scheme, 0.15 for an e-mail address.
\<close>

definition keyword_hits :: "string \<Rightarrow> (string \<times> string) list" where
  "keyword_hits text = filter (\<lambda>ck. str_in (snd ck) (lower text)) keyword_pairs"

definition sum_of_increments :: "string \<Rightarrow> real" where
  "sum_of_increments text =
     0.15 * real (length (keyword_hits text)) +
     (if re_search match_digits10 text then 0.2 else 0) +
     (if re_search match_scheme text then 0.25 else 0) +
     (if re_search match_email text then 0.15 else 0)"

text \<open>Whether the payment-handle loop accepts a candidate, given the outcome \<open>b\<close> of
  its e-mail test.\<close>

definition wanted_upi :: "string \<Rightarrow> bool \<Rightarrow> bool" where
  "wanted_upi x b = (any_in upi_patterns (lower x) \<or> \<not> b)"

section \<open>Sample data\<close>

text \<open>An intelligence set of three items with three different values.\<close>

definition three_items :: ExtractedIntelligence where
  "three_items =
     \<lparr>bankAccounts = [\<lparr>ivalue = ''123456789'', confidence = 0.6, extractedAt = 0,
                         extractionMethod = ''regex_bank''\<rparr>],
      upiIds = [\<lparr>ivalue = ''rewards@paytm'', confidence = 0.95, extractedAt = 0,
                   extractionMethod = ''regex_upi''\<rparr>],
      phishingLinks = [\<lparr>ivalue = ''http://x.y'', confidence = 1.0, extractedAt = 0,
                          extractionMethod = ''regex_url''\<rparr>],
      phoneNumbers = [], suspiciousKeywords = []\<rparr>"

section \<open>Reading the state before a request\<close>

text \<open>
  The session a request finds: the stored one, or the fresh dictionary the handler creates;
  and whether that session's callback flag is already set.
\<close>

definition session_before :: "world \<Rightarrow> string \<Rightarrow> session_data" where
  "session_before w session_id =
     (case sessions w session_id of None \<Rightarrow> new_session | Some sd \<Rightarrow> sd)"

definition callback_already_sent :: "world \<Rightarrow> string \<Rightarrow> bool" where
  "callback_already_sent w session_id =
     (case sessions w session_id of None \<Rightarrow> False | Some sd \<Rightarrow> callback_sent sd)"

section \<open>Sample configurations and requests\<close>

text \<open>
  \<open>default_config\<close> holds the defaults of the source: the default API key, and no key
  for the language model. \<open>groq_config\<close> has one. \<open>scammer_says\<close> is a request of the
  counterparty with the right API key, in an environment where the language model answers and
  the callback succeeds.
\<close>

definition default_config :: config where
  "default_config = \<lparr>API_KEY_SECRET = ''sk_honeypot_2024_secure_key'', GROQ_API_KEY = ''''\<rparr>"

definition groq_config :: config where
  "groq_config = \<lparr>API_KEY_SECRET = ''sk_honeypot_2024_secure_key'', GROQ_API_KEY = ''gsk_1''\<rparr>"

definition sample_env :: env where
  "sample_env =
     \<lparr>now_ms = 1700000000000, llm_reply = Some ''Oh no, what happened?'',
      fallback_reply = ''Who am I speaking with please?'', callback_result = Inr 200\<rparr>"

definition scammer_says :: "string \<Rightarrow> string \<Rightarrow> env \<times> ConversationRequest \<times> string option" where
  "scammer_says session_id t =
     (sample_env,
      \<lparr>sessionId = session_id, message = \<lparr>sender = ''scammer'', mtext = t, timestamp = 0\<rparr>\<rparr>,
      Some ''sk_honeypot_2024_secure_key'')"

section \<open>Texts without signals\<close>

text \<open>
  The words and cues the stage classifier looks for, rule by rule, in one list; a text has a
  stage keyword when one of them occurs in its lowered form, and an identifier when one of the
  four extraction patterns matches somewhere in it.
\<close>

definition stage_keywords :: "string list" where
  "stage_keywords =
     [''urgent'', ''blocked'', ''suspended'', ''expired'', ''alert'', ''warning'', ''attention'',
      ''bank'', ''government'', ''police'', ''officer'', ''department'', ''official'', ''rbi'',
      ''income tax'',
      ''pay'', ''send'', ''transfer'', ''amount'', ''fee'', ''penalty'', ''fine'', ''deposit'',
      ''rupees'', ''rs'',
      ''share'', ''provide'', ''enter'', ''otp'', ''password'', ''cvv'', ''pin'', ''card number'',
      ''details'',
      ''http'', ''link'', ''.com'', ''click'']"

definition has_stage_keyword :: "string \<Rightarrow> bool" where
  "has_stage_keyword text = any_in stage_keywords (lower text)"

definition has_identifier :: "string \<Rightarrow> bool" where
  "has_identifier text =
     (re_search match_bank text \<or> re_search match_upi text \<or> re_search match_phone text \<or>
      re_search match_link text)"

section \<open>Links and callbacks\<close>

text \<open>Every row of the link table belongs to a session for which a callback was posted.\<close>

definition links_backed :: "world \<Rightarrow> bool" where
  "links_backed w =
     list_all (\<lambda>row. list_ex (\<lambda>p. p_sessionId p = snd (snd row)) (callback_posts w))
       (network_links_table w)"

chapter \<open>Properties\<close>

section \<open>Intent scorer: confidence and flag\<close>

lemma scan_keywords_sum:
  "snd (scan_keywords t ps (p, s)) =
     s + 0.15 * real (length (filter (\<lambda>ck. str_in (snd ck) t) ps))"
  by (induction ps arbitrary: p s) (auto simp: algebra_simps)

lemma raw_score_sum: "snd (raw_score tx) = sum_of_increments tx"
proof -
  obtain p0 s0 where sk: "scan_keywords (lower tx) keyword_pairs ([], 0) = (p0, s0)"
    by (cases "scan_keywords (lower tx) keyword_pairs ([], 0)")
  have "s0 = 0.15 * real (length (keyword_hits tx))"
    using scan_keywords_sum [of "lower tx" keyword_pairs "[]" 0] sk
    by (simp add: keyword_hits_def)
  then show ?thesis
    by (simp add: raw_score_def sk sum_of_increments_def)
qed

lemma sum_of_increments_nonneg: "0 \<le> sum_of_increments tx"
  by (simp add: sum_of_increments_def)

text \<open>
  Claim C3. For every text, the confidence that \<open>detect_scam_intent\<close> returns is the
  sum of the per-signal increments clamped at 1, it lies between 0 and 1, and the scam flag is
  set exactly when the unclamped sum is at least 0.3.
\<close>

theorem scorer_confidence_and_flag:
  "fst (snd (detect_scam_intent tx)) = min (sum_of_increments tx) 1 \<and>
   0 \<le> fst (snd (detect_scam_intent tx)) \<and>
   fst (snd (detect_scam_intent tx)) \<le> 1 \<and>
   fst (detect_scam_intent tx) = (sum_of_increments tx \<ge> 0.3)"
proof -
  obtain ps sc where rs: "raw_score tx = (ps, sc)"
    by (cases "raw_score tx")
  have sc: "sc = sum_of_increments tx"
    using raw_score_sum [of tx] rs by simp
  have "0 \<le> sc"
    using sc sum_of_increments_nonneg by simp
  then show ?thesis
    using sc by (simp add: detect_scam_intent_def rs)
qed

section \<open>Matching above ASCII\<close>

text \<open>
  The classes above ASCII at work: a letter with an accent before a digit run is a word
  character, so the bank pattern finds no boundary there while the phone pattern matches; the
  no-break space ends a link; \<open>lower\<close> maps the capital letters above ASCII too.
\<close>

lemma code_points_above_ascii:
  "findall match_bank None (CHR 0xE9 # ''9876543210'') = [] \<and>
       findall match_phone None (CHR 0xE9 # ''9876543210'') = [''9876543210''] \<and>
       lower [CHR 0xC9, CHR 0xD7, CHR ''A'', CHR 0xDF] = [CHR 0xE9, CHR 0xD7, CHR ''a'', CHR 0xDF] \<and>
       is_space (CHR 0xA0) \<and> is_space (CHR 0x85) \<and> \<not> is_word (CHR 0xD7) \<and> is_word (CHR 0xB5) \<and>
       findall match_link None (''http://a.b'' @ [CHR 0xA0] @ ''c'') = [''http://a.b'']"
  by code_simp

section \<open>The extractor returns\<close>

lemma findall_elem:
  "x \<in> set (findall m p s) \<Longrightarrow>
     \<exists>p' s' n. m p' s' = Some n \<and> 0 < n \<and> n \<le> length s' \<and> x = take n s'"
proof (induction m p s rule: findall.induct)
  case (1 m prev)
  then show ?case by simp
next
  case (2 m prev c cs)
  show ?case
  proof (cases "m prev (c # cs)")
    case None
    with "2.prems" "2.IH"(1) show ?thesis by simp
  next
    case (Some n)
    show ?thesis
    proof (cases "n = 0 \<or> length (c # cs) < n")
      case True
      with "2.prems" "2.IH"(2) [OF Some True] Some show ?thesis by simp
    next
      case False
      with "2.prems" Some have "x = take n (c # cs) \<or>
          x \<in> set (findall m (Some ((c # cs) ! (n - 1))) (drop n (c # cs)))"
        by simp
      then show ?thesis
      proof
        assume "x = take n (c # cs)"
        with Some False show ?thesis
          by (intro exI [of _ prev] exI [of _ "c # cs"] exI [of _ n]) simp
      next
        assume "x \<in> set (findall m (Some ((c # cs) ! (n - 1))) (drop n (c # cs)))"
        with "2.IH"(3) [OF Some False] show ?thesis by simp
      qed
    qed
  qed
qed

lemma first_some_Some:
  "first_some cont ks = Some r \<Longrightarrow> \<exists>k\<in>set ks. cont k = Some r"
  by (induction ks) (auto split: option.splits)

lemma rep_Some:
  assumes "rep cls lo hi s off cont = Some r"
  shows "\<exists>k. off + lo \<le> k \<and> k \<le> off + length (takeWhile cls (drop off s)) \<and>
             (\<forall>h. hi = Some h \<longrightarrow> k \<le> off + h) \<and> cont k = Some r"
proof -
  from assms obtain k where
    k: "k \<in> set (rev [off + lo ..< Suc (off + (case hi of None \<Rightarrow> length (takeWhile cls (drop off s))
            | Some h \<Rightarrow> min h (length (takeWhile cls (drop off s)))))])"
    and c: "cont k = Some r"
    unfolding rep_def Let_def by (blast dest: first_some_Some)
  from k have "off + lo \<le> k \<and> k \<le> off + length (takeWhile cls (drop off s)) \<and>
             (\<forall>h. hi = Some h \<longrightarrow> k \<le> off + h)"
    by (cases hi) auto
  with c show ?thesis by blast
qed

lemma lit_Some:
  "lit p s off cont = Some r \<Longrightarrow> startswith (drop off s) p \<and> cont (off + length p) = Some r"
  by (simp add: lit_def split: if_splits)

lemma startswith_single:
  "startswith (drop off s) [c] \<Longrightarrow> off < length s \<and> s ! off = c"
proof (cases "drop off s")
  case Nil
  assume "startswith (drop off s) [c]"
  with Nil show ?thesis by simp
next
  case (Cons a as)
  assume "startswith (drop off s) [c]"
  with Cons have ac: "a = c" by simp
  from Cons have "off < length s" by (cases "off < length s") auto
  moreover from this Cons have "s ! off = a"
    by (metis Cons_nth_drop_Suc list.inject)
  ultimately show ?thesis using ac by simp
qed

lemma match_upi_at:
  assumes "match_upi p s = Some n"
  shows "\<exists>i. i < n \<and> n \<le> length s \<and> s ! i = CHR ''@''"
proof -
  from assms obtain k where
    k: "lit ''@'' s k (\<lambda>j. rep cls_upi 1 None s j Some) = Some n"
    unfolding match_upi_def by (blast dest: rep_Some)
  from lit_Some [OF k] have sw: "startswith (drop k s) ''@''"
    and r: "rep cls_upi 1 None s (Suc k) Some = Some n" by simp_all
  from startswith_single [OF sw] have kl: "k < length s" and at: "s ! k = CHR ''@''" by simp_all
  from rep_Some [OF r] obtain k' where
    "Suc k + 1 \<le> k'" "k' \<le> Suc k + length (takeWhile cls_upi (drop (Suc k) s))" "k' = n"
    by auto
  moreover have "length (takeWhile cls_upi (drop (Suc k) s)) \<le> length s - Suc k"
    by (metis length_drop length_takeWhile_le)
  ultimately have "k < n" "n \<le> length s" using kl by auto
  with at show ?thesis by blast
qed

lemma upi_has_at:
  assumes "u \<in> set (findall match_upi p s)"
  shows "CHR ''@'' \<in> set u"
proof -
  from findall_elem [OF assms] obtain p' s' n where
    m: "match_upi p' s' = Some n" and u: "u = take n s'" by blast
  from match_upi_at [OF m] obtain i where "i < n" "n \<le> length s'" "s' ! i = CHR ''@''" by blast
  then have "u ! i = CHR ''@''" "i < length u" using u by simp_all
  then show ?thesis by (metis nth_mem)
qed

lemma split_on_length: "length (split_on c s) = Suc (length (filter (\<lambda>x. x = c) s))"
  by (induction s) (auto split: list.splits)

lemma lower_keeps_at: "CHR ''@'' \<in> set u \<Longrightarrow> CHR ''@'' \<in> set (lower u)"
proof -
  assume "CHR ''@'' \<in> set u"
  then have "lower_char (CHR ''@'') \<in> set (lower u)" by (simp add: lower_def)
  moreover have "lower_char (CHR ''@'') = CHR ''@''" by (simp add: lower_char_def)
  ultimately show ?thesis by simp
qed

lemma is_email_returns:
  assumes "CHR ''@'' \<in> set u"
  shows "\<exists>b. is_email (lower u) = Inr b"
proof -
  from lower_keeps_at [OF assms] have "filter (\<lambda>x. x = CHR ''@'') (lower u) \<noteq> []"
    by (simp add: filter_empty_conv)
  then have "1 < length (split_on CHR ''@'' (lower u))"
    by (simp add: split_on_length)
  then show ?thesis
    by (cases "any_in email_domains (lower u)") (auto simp: is_email_def index_def)
qed

lemma upi_loop_returns:
  "\<forall>u\<in>set us. CHR ''@'' \<in> set u \<Longrightarrow> \<exists>r. upi_loop ts us items = Inr r"
proof (induction us arbitrary: items)
  case Nil
  then show ?case by simp
next
  case (Cons u us)
  from Cons.prems have "CHR ''@'' \<in> set u" by simp
  from is_email_returns [OF this] obtain b where b: "is_email (lower u) = Inr b" ..
  from Cons.prems have "\<forall>u\<in>set us. CHR ''@'' \<in> set u" by simp
  from Cons.IH [OF this] show ?case
    by (simp add: b Let_def)
qed

lemma extract_intelligence_returns: "\<exists>r. extract_intelligence ts tx existing = Inr r"
proof -
  obtain r where "upi_loop ts (findall match_upi None tx) (upiIds existing) = Inr r"
    using upi_loop_returns [of "findall match_upi None tx" ts "upiIds existing"] upi_has_at
    by blast
  then show ?thesis by (simp add: extract_intelligence_def Let_def)
qed

section \<open>Extraction is idempotent\<close>

lemma stored_snoc: "stored v (items @ [x]) = (stored v items \<or> ivalue x = v)"
  by (auto simp: stored_def list_ex_iff)

lemma foldl_add_mono:
  assumes mono: "\<And>items x. stored v items \<Longrightarrow> stored v (f items x)"
  shows "stored v items \<Longrightarrow> stored v (foldl f items xs)"
  by (induction xs arbitrary: items) (simp_all add: mono)

lemma foldl_add_covers:
  assumes step: "\<And>items x. stored x (f items x)"
    and mono: "\<And>items x v. stored v items \<Longrightarrow> stored v (f items x)"
  shows "x \<in> set xs \<Longrightarrow> stored x (foldl f items xs)"
proof (induction xs arbitrary: items)
  case Nil
  then show ?case by simp
next
  case (Cons y ys)
  show ?case
  proof (cases "x = y")
    case True
    have "stored x (foldl f (f items x) ys)"
      by (rule foldl_add_mono) (simp_all add: mono step)
    with True show ?thesis by simp
  next
    case False
    with Cons show ?thesis by simp
  qed
qed

lemma foldl_add_noop:
  assumes noop: "\<And>items x. stored x items \<Longrightarrow> g items x = items"
  shows "\<forall>x\<in>set xs. stored x items \<Longrightarrow> foldl g items xs = items"
  by (induction xs) (simp_all add: noop)

lemma foldl_add_twice:
  assumes step: "\<And>items x. stored x (f items x)"
    and mono: "\<And>items x v. stored v items \<Longrightarrow> stored v (f items x)"
    and noop: "\<And>items x. stored x items \<Longrightarrow> g items x = items"
  shows "foldl g (foldl f items xs) xs = foldl f items xs"
  by (rule foldl_add_noop) (auto simp: noop intro: foldl_add_covers step mono)

lemma banks_twice:
  "foldl (add_bank ts') (foldl (add_bank ts) items xs) xs = foldl (add_bank ts) items xs"
  by (rule foldl_add_twice) (auto simp: add_bank_def Let_def stored_snoc)

lemma phones_twice:
  "foldl (add_phone ts') (foldl (add_phone ts) items xs) xs = foldl (add_phone ts) items xs"
  by (rule foldl_add_twice) (auto simp: add_phone_def Let_def stored_snoc)

lemma links_twice:
  "foldl (add_link ts') (foldl (add_link ts) items xs) xs = foldl (add_link ts) items xs"
  by (rule foldl_add_twice) (auto simp: add_link_def Let_def stored_snoc)

lemma upi_loop_mono:
  "upi_loop ts xs items = Inr r \<Longrightarrow> stored v items \<Longrightarrow> stored v r"
proof (induction xs arbitrary: items)
  case Nil
  then show ?case by simp
next
  case (Cons x xs)
  then show ?case
    by (auto simp: Let_def stored_snoc split: sum.splits if_splits)
qed

lemma upi_loop_covers:
  "upi_loop ts xs items = Inr r \<Longrightarrow> x \<in> set xs \<Longrightarrow>
     \<exists>b. is_email (lower x) = Inr b \<and> (wanted_upi x b \<longrightarrow> stored x r)"
proof (induction xs arbitrary: items)
  case Nil
  then show ?case by simp
next
  case (Cons y ys)
  from Cons.prems(1) obtain b where b: "is_email (lower y) = Inr b"
    by (auto simp: Let_def split: sum.splits)
  show ?case
  proof (cases "x = y")
    case True
    show ?thesis
    proof (cases "wanted_upi y b \<and> \<not> stored y items")
      case True
      with Cons.prems(1) b have
        "upi_loop ts ys (items @ [\<lparr>ivalue = y,
            confidence = (if any_in (take 9 upi_patterns) (lower y) then 0.95 else 0.8),
            extractedAt = ts, extractionMethod = ''regex_upi''\<rparr>]) = Inr r"
        by (simp add: Let_def wanted_upi_def)
      from upi_loop_mono [OF this, of y] have "stored y r" by (simp add: stored_snoc)
      with \<open>x = y\<close> b show ?thesis by simp
    next
      case False
      with Cons.prems(1) b have "upi_loop ts ys items = Inr r"
        by (auto simp: Let_def wanted_upi_def)
      from upi_loop_mono [OF this, of y] False have "wanted_upi y b \<longrightarrow> stored y r" by auto
      with \<open>x = y\<close> b show ?thesis by simp
    qed
  next
    case False
    with Cons.prems(2) have xin: "x \<in> set ys" by simp
    from Cons.prems(1) b obtain items' where "upi_loop ts ys items' = Inr r"
      by (auto simp: Let_def split: if_splits)
    from Cons.IH [OF this xin] show ?thesis .
  qed
qed

lemma upi_loop_noop:
  "\<forall>x\<in>set xs. \<exists>b. is_email (lower x) = Inr b \<and> (wanted_upi x b \<longrightarrow> stored x r) \<Longrightarrow>
     upi_loop ts' xs r = Inr r"
  by (induction xs) (auto simp: Let_def wanted_upi_def)

lemma upi_loop_twice:
  assumes "upi_loop ts xs items = Inr r"
  shows "upi_loop ts' xs r = Inr r"
  by (rule upi_loop_noop) (blast dest: upi_loop_covers [OF assms])

lemma keywords_mono: "k \<in> set kws \<Longrightarrow> k \<in> set (foldl (add_keyword t) kws cks)"
  by (induction cks arbitrary: kws) (simp_all add: add_keyword_def)

lemma keywords_cover:
  "ck \<in> set cks \<Longrightarrow> str_in (snd ck) t \<Longrightarrow> snd ck \<in> set (foldl (add_keyword t) kws cks)"
proof (induction cks arbitrary: kws)
  case Nil
  then show ?case by simp
next
  case (Cons c cs)
  show ?case
  proof (cases "ck = c")
    case True
    with Cons.prems(2) have "snd ck \<in> set (add_keyword t kws c)"
      by (simp add: add_keyword_def)
    then show ?thesis by (simp add: keywords_mono)
  next
    case False
    with Cons show ?thesis by simp
  qed
qed

lemma keywords_noop:
  "\<forall>ck\<in>set cks. str_in (snd ck) t \<longrightarrow> snd ck \<in> set kws \<Longrightarrow>
     foldl (add_keyword t) kws cks = kws"
  by (induction cks) (auto simp: add_keyword_def)

lemma keywords_twice:
  "foldl (add_keyword t) (foldl (add_keyword t) kws cks) cks = foldl (add_keyword t) kws cks"
  by (rule keywords_noop) (simp add: keywords_cover)

text \<open>
  Claim C5. Extraction is idempotent: for every text and every intelligence set, the call
  returns, and extracting the same text again from its result (at any later clock reading)
  returns that result unchanged: no category gains an item, no duplicate is stored.
\<close>

theorem extraction_idempotent:
  "\<exists>S1. extract_intelligence ts tx S = Inr S1 \<and> extract_intelligence ts' tx S1 = Inr S1"
proof -
  obtain S1 where S1: "extract_intelligence ts tx S = Inr S1"
    using extract_intelligence_returns by blast
  then obtain upis where
    upis: "upi_loop ts (findall match_upi None tx) (upiIds S) = Inr upis"
    and S1_def: "S1 = \<lparr>bankAccounts = foldl (add_bank ts) (bankAccounts S) (findall match_bank None tx),
        upiIds = upis,
        phishingLinks = foldl (add_link ts) (phishingLinks S) (findall match_link None tx),
        phoneNumbers = foldl (add_phone ts) (phoneNumbers S) (findall match_phone None tx),
        suspiciousKeywords = foldl (add_keyword (lower tx)) (suspiciousKeywords S) keyword_pairs\<rparr>"
    by (auto simp: extract_intelligence_def Let_def split: sum.splits)
  have "extract_intelligence ts' tx S1 = Inr S1"
    unfolding extract_intelligence_def Let_def
    by (simp add: S1_def upi_loop_twice [OF upis] banks_twice phones_twice links_twice
        keywords_twice)
  with S1 show ?thesis by blast
qed

section \<open>Payment handles and e-mail addresses\<close>

text \<open>
  Claim C6. From \<^verbatim>\<open>pay to rewards@paytm\<close> the extractor stores the payment handle
  \<^verbatim>\<open>rewards@paytm\<close> with confidence 0.95, the handle containing one of the first nine
  provider keywords; from \<^verbatim>\<open>contact me at john@gmail.com\<close> it stores nothing: the
  candidate \<^verbatim>\<open>john@gmail.com\<close> names an e-mail provider, has a dot after the at sign
  and contains no provider keyword.
\<close>

theorem payment_handle_disambiguation:
  "extract_intelligence ts ''pay to rewards@paytm'' no_intelligence =
     Inr \<lparr>bankAccounts = [],
          upiIds = [\<lparr>ivalue = ''rewards@paytm'', confidence = 0.95, extractedAt = ts,
                     extractionMethod = ''regex_upi''\<rparr>],
          phishingLinks = [], phoneNumbers = [], suspiciousKeywords = [''reward'']\<rparr> \<and>
   any_in (take 9 upi_patterns) (lower ''rewards@paytm'') \<and>
   extract_intelligence ts ''contact me at john@gmail.com'' no_intelligence =
     Inr no_intelligence \<and>
   findall match_upi None ''contact me at john@gmail.com'' = [''john@gmail.com''] \<and>
   is_email (lower ''john@gmail.com'') = Inr True \<and>
   \<not> any_in upi_patterns (lower ''john@gmail.com'')"
  by code_simp

section \<open>Network links\<close>

lemma insert_link_set: "set (insert_link links row) = insert row (set links)"
  by (auto simp: insert_link_def)

lemma foldl_insert_link_set: "set (foldl insert_link links rows) = set links \<union> set rows"
  by (induction rows arbitrary: links) (auto simp: insert_link_set)

lemma foldl_insert_link_noop:
  "set rows \<subseteq> set links \<Longrightarrow> foldl insert_link links rows = links"
  by (induction rows) (auto simp: insert_link_def)

lemma build_network_links_twice:
  "build_network_links sid items (build_network_links sid items w) =
     build_network_links sid items w"
  by (simp add: build_network_links_def foldl_insert_link_noop foldl_insert_link_set)


section \<open>One digit run, two items\<close>

lemma findall_skips:
  assumes inside: "\<And>p s n. m p s = Some n \<Longrightarrow> \<forall>x\<in>set (take n s). A x"
    and d: "\<not> A d"
  shows "\<exists>ms. findall m p (xs @ d # rest) = ms @ findall m (Some d) rest"
proof (induction "length xs" arbitrary: xs p rule: less_induct)
  case less
  show ?case
  proof (cases xs)
    case Nil
    show ?thesis
    proof (cases "m p (d # rest)")
      case None
      with Nil show ?thesis by simp
    next
      case (Some n)
      show ?thesis
      proof (cases "n = 0 \<or> length (d # rest) < n")
        case True
        with Nil Some show ?thesis by auto
      next
        case False
        then have "d \<in> set (take n (d # rest))" by (cases n) auto
        with inside [OF Some] d show ?thesis by blast
      qed
    qed
  next
    case (Cons c cs)
    have step: "\<exists>ms. findall m (Some c) (cs @ d # rest) = ms @ findall m (Some d) rest"
      using less [of cs "Some c"] Cons by simp
    show ?thesis
    proof (cases "m p (c # cs @ d # rest)")
      case None
      with Cons step show ?thesis by simp
    next
      case (Some n)
      show ?thesis
      proof (cases "n = 0 \<or> length (c # cs @ d # rest) < n")
        case True
        with Cons Some step show ?thesis by auto
      next
        case False
        have n_le: "n \<le> length xs"
        proof (rule ccontr)
          assume "\<not> n \<le> length xs"
          then have "d \<in> set (take n (xs @ d # rest))"
            by (auto simp: take_Cons' in_set_conv_nth)
          with inside [OF Some] d Cons show False by auto
        qed
        have "drop n ((c # cs) @ d # rest) = drop n (c # cs) @ d # rest"
          using n_le Cons by (simp only: drop_append) simp
        then have dr: "drop n (c # cs @ d # rest) = drop n xs @ d # rest"
          using Cons by simp
        have "length (drop n xs) < length xs"
          using False n_le Cons by auto
        from less [OF this, of "Some ((c # cs @ d # rest) ! (n - 1))"] obtain ms where
          "findall m (Some ((c # cs @ d # rest) ! (n - 1))) (drop n xs @ d # rest) =
             ms @ findall m (Some d) rest" by blast
        with Some False dr Cons
        have "findall m p (xs @ d # rest) =
            (take n (c # cs @ d # rest) # ms) @ findall m (Some d) rest"
          by simp
        then show ?thesis by blast
      qed
    qed
  qed
qed


lemma take_takeWhile_all:
  "n \<le> length (takeWhile P s) \<Longrightarrow> \<forall>x\<in>set (take n s). P x"
proof (induction s arbitrary: n)
  case Nil
  then show ?case by simp
next
  case (Cons a s)
  then show ?case by (cases n) (auto split: if_splits)
qed

lemma match_bank_digits:
  assumes "match_bank p s = Some n"
  shows "\<forall>x\<in>set (take n s). is_digit x"
proof -
  from assms have "rep is_digit 9 (Some 18) s 0 (\<lambda>j. bnd p s j Some) = Some n"
    by (simp add: match_bank_def bnd_def split: if_splits)
  from rep_Some [OF this] obtain k where
    "k \<le> length (takeWhile is_digit s)" "bnd p s k Some = Some n" by auto
  then have "n \<le> length (takeWhile is_digit s)"
    by (simp add: bnd_def split: if_splits)
  then show ?thesis by (rule take_takeWhile_all)
qed

lemma match_phone_chars:
  assumes "match_phone p s = Some n"
  shows "\<forall>x\<in>set (take n s). is_digit x \<or> x = CHR ''+''"
proof -
  from assms consider
    (plus) "char_at s 0 = Some CHR ''+''" "rep is_digit 10 (Some 13) s (Suc 0) Some = Some n"
    | (bare) "rep is_digit 10 (Some 13) s 0 Some = Some n"
    by (auto simp: match_phone_def opt_def split: option.splits if_splits)
  then show ?thesis
  proof cases
    case plus
    from rep_Some [OF plus(2)] have n: "n \<le> Suc (length (takeWhile is_digit (drop (Suc 0) s)))"
      and n0: "0 < n" by auto
    from plus(1) obtain cs where s: "s = CHR ''+'' # cs"
      by (cases s) (auto simp: char_at_def)
    from n0 obtain n' where n': "n = Suc n'" by (cases n) auto
    with n s have "n' \<le> length (takeWhile is_digit cs)" by simp
    from take_takeWhile_all [OF this] show ?thesis
      using s n' by auto
  next
    case bare
    from rep_Some [OF bare] have "n \<le> length (takeWhile is_digit s)" by auto
    from take_takeWhile_all [OF this] show ?thesis by blast
  qed
qed

lemma is_digit_word: "is_digit c \<Longrightarrow> is_word c"
  by (simp add: is_word_def)

lemma is_digit_not_plus: "is_digit c \<Longrightarrow> c \<noteq> CHR ''+''"
  by (auto simp: is_digit_def)

lemma takeWhile_run:
  assumes "\<forall>c\<in>set r. P c" and "post = [] \<or> \<not> P (hd post)"
  shows "takeWhile P (r @ post) = r"
proof -
  from assms(2) have "takeWhile P post = []" by (cases post) auto
  with assms(1) show ?thesis by simp
qed

lemma rev_upt_top: "lo \<le> k \<Longrightarrow> rev [lo ..< Suc k] = k # rev [lo ..< k]"
  by simp

lemma match_bank_run:
  assumes digits: "\<forall>c\<in>set r. is_digit c" and len: "9 \<le> length r" "length r \<le> 18"
    and before: "\<not> is_word_opt prev"
    and after: "post = [] \<or> \<not> is_word (hd post)"
  shows "match_bank prev (r @ post) = Some (length r)"
proof -
  from len obtain c cs where r: "r = c # cs" by (cases r) auto
  from after have after': "post = [] \<or> \<not> is_digit (hd post)"
    using is_digit_word by blast
  have tw: "takeWhile is_digit (r @ post) = r"
    by (rule takeWhile_run [OF digits after'])
  have first: "word_boundary (char_before prev (r @ post) 0) (char_at (r @ post) 0)"
    using before digits r
    by (simp add: word_boundary_def char_before_def char_at_def is_word_opt_def is_digit_word)
  have lastc: "char_at (r @ post) (length r - 1) = Some (last r)"
    using r by (simp add: char_at_def nth_append last_conv_nth)
  have "is_word (last r)"
    using digits r is_digit_word by (metis last_in_set list.distinct(1))
  moreover have "\<not> is_word_opt (char_at (r @ post) (length r))"
    using after by (cases post) (auto simp: char_at_def is_word_opt_def nth_append)
  ultimately have endb:
    "word_boundary (char_before prev (r @ post) (length r)) (char_at (r @ post) (length r))"
    using len lastc r by (simp add: word_boundary_def char_before_def is_word_opt_def)
  have "rep is_digit 9 (Some 18) (r @ post) 0 (\<lambda>j. bnd prev (r @ post) j Some) = Some (length r)"
    using len endb by (simp add: rep_def tw min_absorb2 rev_upt_top bnd_def del: upt_Suc)
  with first show ?thesis by (simp add: match_bank_def bnd_def)
qed

lemma match_phone_run:
  assumes digits: "\<forall>c\<in>set r. is_digit c" and len: "10 \<le> length r" "length r \<le> 13"
    and after: "post = [] \<or> \<not> is_word (hd post)"
  shows "match_phone prev (r @ post) = Some (length r)"
proof -
  from len obtain c cs where r: "r = c # cs" by (cases r) auto
  from after have after': "post = [] \<or> \<not> is_digit (hd post)"
    using is_digit_word by blast
  have tw: "takeWhile is_digit (r @ post) = r"
    by (rule takeWhile_run [OF digits after'])
  have noplus: "char_at (r @ post) 0 \<noteq> Some CHR ''+''"
    using digits r is_digit_not_plus by (auto simp: char_at_def)
  have "rep is_digit 10 (Some 13) (r @ post) 0 Some = Some (length r)"
    using len by (simp add: rep_def tw min_absorb2 rev_upt_top del: upt_Suc)
  with noplus show ?thesis by (simp add: match_phone_def opt_def)
qed

lemma findall_at_match:
  assumes "m prev (r @ post) = Some (length r)" and "r \<noteq> []"
  shows "findall m prev (r @ post) = r # findall m (Some (last r)) post"
proof -
  from assms(2) obtain c cs where r: "r = c # cs" by (cases r) auto
  have "(r @ post) ! (length r - 1) = last r"
    using r by (simp add: nth_append last_conv_nth)
  with assms(1) r show ?thesis by simp
qed

lemma findall_reaches:
  assumes inside: "\<And>p s n. m p s = Some n \<Longrightarrow> \<forall>x\<in>set (take n s). A x"
    and pre: "pre = [] \<or> \<not> A (last pre)"
    and hit: "\<And>prev. prev = (if pre = [] then None else Some (last pre)) \<Longrightarrow>
                m prev (r @ post) = Some (length r)"
    and ne: "r \<noteq> []"
  shows "r \<in> set (findall m None (pre @ r @ post))"
proof (cases "pre = []")
  case True
  with hit [of None] findall_at_match [of m None r post] ne show ?thesis by simp
next
  case False
  then obtain xs d where p: "pre = xs @ [d]" by (metis rev_exhaust)
  with pre have "\<not> A d" by simp
  have "\<exists>ms. findall m None (xs @ d # r @ post) = ms @ findall m (Some d) (r @ post)"
  proof (rule findall_skips [where A = A])
    show "\<And>p s n. m p s = Some n \<Longrightarrow> \<forall>x\<in>set (take n s). A x" by (rule inside)
    show "\<not> A d" by fact
  qed
  then obtain ms where
    "findall m None (xs @ d # r @ post) = ms @ findall m (Some d) (r @ post)" by blast
  moreover have "m (Some d) (r @ post) = Some (length r)"
    using hit [of "Some d"] p by simp
  then have "findall m (Some d) (r @ post) = r # findall m (Some (last r)) post"
    using findall_at_match [of m "Some d" r post] ne by simp
  ultimately show ?thesis using p by simp
qed


lemma not_stored_filter: "\<not> stored v items \<Longrightarrow> filter (\<lambda>i. ivalue i = v) items = []"
  by (auto simp: stored_def list_ex_iff filter_empty_conv)

lemma foldl_add_filter:
  assumes f: "\<And>items x. f items x = (if stored x items then items else items @ [mk x])"
    and mk: "\<And>x. ivalue (mk x) = x"
  shows "filter (\<lambda>i. ivalue i = v) (foldl f items xs) =
           (if stored v items \<or> v \<notin> set xs then filter (\<lambda>i. ivalue i = v) items else [mk v])"
proof (induction xs arbitrary: items)
  case Nil
  then show ?case by simp
next
  case (Cons y ys)
  show ?case
  proof (cases "stored y items")
    case True
    then have "f items y = items" by (simp add: f)
    with Cons [of items] True show ?thesis by auto
  next
    case False
    then have fy: "f items y = items @ [mk y]" by (simp add: f)
    show ?thesis
    proof (cases "v = y")
      case True
      with False have "filter (\<lambda>i. ivalue i = v) items = []" by (simp add: not_stored_filter)
      with Cons [of "items @ [mk y]"] fy True False show ?thesis
        by (simp add: stored_snoc mk)
    next
      case False
      with Cons [of "items @ [mk y]"] fy show ?thesis
        by (auto simp: stored_snoc mk)
    qed
  qed
qed

text \<open>
  Claim C10. Let the text hold a run of 10 to 13 digits that stands alone: before it the text
  starts, or a character that is neither a word character nor a plus sign; after it the text
  ends, or a character that is not a word character. If the run is stored neither as a bank
  account nor as a phone number, one call of the extractor stores it as both: exactly one
  bank-account item with confidence 0.9 for 11 to 13 digits and 0.6 for 10, and exactly one
  phone-number item with confidence 0.7.
\<close>

theorem digit_run_stored_twice:
  assumes digits: "\<forall>c\<in>set r. is_digit c" and len: "10 \<le> length r" "length r \<le> 13"
    and before: "pre = [] \<or> (\<not> is_word (last pre) \<and> last pre \<noteq> CHR ''+'')"
    and after: "post = [] \<or> \<not> is_word (hd post)"
    and fresh: "\<not> stored r (bankAccounts S)" "\<not> stored r (phoneNumbers S)"
  shows "\<exists>S'. extract_intelligence ts (pre @ r @ post) S = Inr S' \<and>
           filter (\<lambda>i. ivalue i = r) (bankAccounts S') =
             [\<lparr>ivalue = r, confidence = (if 11 \<le> length r then 0.9 else 0.6),
               extractedAt = ts, extractionMethod = ''regex_bank''\<rparr>] \<and>
           filter (\<lambda>i. ivalue i = r) (phoneNumbers S') =
             [\<lparr>ivalue = r, confidence = 0.7, extractedAt = ts,
               extractionMethod = ''regex_phone''\<rparr>]"
proof -
  from len have ne: "r \<noteq> []" by auto
  have bank_hit: "r \<in> set (findall match_bank None (pre @ r @ post))"
  proof (rule findall_reaches [where A = is_digit])
    show "\<And>p s n. match_bank p s = Some n \<Longrightarrow> \<forall>x\<in>set (take n s). is_digit x"
      by (rule match_bank_digits)
    show "pre = [] \<or> \<not> is_digit (last pre)"
      using before is_digit_word by blast
    show "match_bank prev (r @ post) = Some (length r)"
      if "prev = (if pre = [] then None else Some (last pre))" for prev
      using that before len
      by (intro match_bank_run digits after) (auto simp: is_word_opt_def)
    show "r \<noteq> []" by (rule ne)
  qed
  have phone_hit: "r \<in> set (findall match_phone None (pre @ r @ post))"
  proof (rule findall_reaches [where A = "\<lambda>x. is_digit x \<or> x = CHR ''+''"])
    show "\<And>p s n. match_phone p s = Some n \<Longrightarrow> \<forall>x\<in>set (take n s). is_digit x \<or> x = CHR ''+''"
      by (rule match_phone_chars)
    show "pre = [] \<or> \<not> (is_digit (last pre) \<or> last pre = CHR ''+'')"
      using before is_digit_word by blast
    show "match_phone prev (r @ post) = Some (length r)" for prev
      by (intro match_phone_run digits after len)
    show "r \<noteq> []" by (rule ne)
  qed
  obtain S' where S': "extract_intelligence ts (pre @ r @ post) S = Inr S'"
    using extract_intelligence_returns by blast
  then have banks: "bankAccounts S' =
      foldl (add_bank ts) (bankAccounts S) (findall match_bank None (pre @ r @ post))"
    and phones: "phoneNumbers S' =
      foldl (add_phone ts) (phoneNumbers S) (findall match_phone None (pre @ r @ post))"
    by (auto simp: extract_intelligence_def Let_def split: sum.splits)
  have "filter (\<lambda>i. ivalue i = r) (bankAccounts S') =
      [\<lparr>ivalue = r, confidence = (if 11 \<le> length r \<and> length r \<le> 16 then 0.9 else 0.6),
        extractedAt = ts, extractionMethod = ''regex_bank''\<rparr>]"
    unfolding banks
    by (subst foldl_add_filter [where mk = "\<lambda>x. \<lparr>ivalue = x,
          confidence = (if 11 \<le> length x \<and> length x \<le> 16 then 0.9 else 0.6),
          extractedAt = ts, extractionMethod = ''regex_bank''\<rparr>"])
       (simp_all add: add_bank_def Let_def fresh bank_hit)
  moreover from digits ne have "\<not> startswith r ''+''"
    using is_digit_not_plus by (cases r) auto
  then have "filter (\<lambda>i. ivalue i = r) (phoneNumbers S') =
      [\<lparr>ivalue = r, confidence = 0.7, extractedAt = ts, extractionMethod = ''regex_phone''\<rparr>]"
    unfolding phones
    by (subst foldl_add_filter [where mk = "\<lambda>x. \<lparr>ivalue = x,
          confidence = (if startswith x ''+'' then 0.9 else 0.7),
          extractedAt = ts, extractionMethod = ''regex_phone''\<rparr>"])
       (simp_all add: add_phone_def Let_def fresh phone_hit)
  ultimately show ?thesis using S' len by auto
qed

text \<open>Claim C10 on the text \<^verbatim>\<open>call 9876543210 now\<close> and an empty intelligence set.\<close>

theorem digit_run_stored_twice_witness:
  "\<exists>S'. extract_intelligence 7 (''call '' @ ''9876543210'' @ '' now'') no_intelligence = Inr S' \<and>
         filter (\<lambda>i. ivalue i = ''9876543210'') (bankAccounts S') =
           [\<lparr>ivalue = ''9876543210'', confidence = 0.6, extractedAt = 7,
             extractionMethod = ''regex_bank''\<rparr>] \<and>
         filter (\<lambda>i. ivalue i = ''9876543210'') (phoneNumbers S') =
           [\<lparr>ivalue = ''9876543210'', confidence = 0.7, extractedAt = 7,
             extractionMethod = ''regex_phone''\<rparr>]"
proof -
  have 1: "\<forall>c\<in>set ''9876543210''. is_digit c" by (simp add: is_digit_def)
  have 2: "10 \<le> length ''9876543210''" "length ''9876543210'' \<le> 13" by simp_all
  have 3: "''call '' = [] \<or> (\<not> is_word (last ''call '') \<and> last ''call '' \<noteq> CHR ''+'')"
    by (simp add: is_word_def is_alpha_def is_digit_def latin1_alnum_def)
  have 4: "'' now'' = [] \<or> \<not> is_word (hd '' now'')"
    by (simp add: is_word_def is_alpha_def is_digit_def latin1_alnum_def)
  have 5: "\<not> stored ''9876543210'' (bankAccounts no_intelligence)"
    "\<not> stored ''9876543210'' (phoneNumbers no_intelligence)"
    by (simp_all add: stored_def no_intelligence_def)
  show ?thesis
    using digit_run_stored_twice [OF 1 2 3 4 5, of 7] by simp
qed

section \<open>The handler, block by block\<close>

lemma save_items_frame:
  "sessions (save_items sid ty items w) = sessions w \<and>
   sessions_table (save_items sid ty items w) = sessions_table w \<and>
   callback_posts (save_items sid ty items w) = callback_posts w \<and>
   network_links_table (save_items sid ty items w) = network_links_table w"
  unfolding save_items_def
  by (induction items arbitrary: w) (simp_all add: save_intelligence_def)

lemma save_all_intelligence_frame:
  "sessions (save_all_intelligence sid intel w) = sessions w \<and>
   sessions_table (save_all_intelligence sid intel w) = sessions_table w \<and>
   callback_posts (save_all_intelligence sid intel w) = callback_posts w \<and>
   network_links_table (save_all_intelligence sid intel w) = network_links_table w"
  by (simp add: save_all_intelligence_def save_items_frame)

lemma extraction_block_returns:
  "\<exists>sd3 w3. extraction_block ts sid msg (sd, w) = Inr (sd3, w3) \<and>
     message_count sd3 = message_count sd \<and> scam_detected sd3 = scam_detected sd \<and>
     callback_sent sd3 = callback_sent sd \<and> persona sd3 = persona sd \<and>
     current_stage sd3 = current_stage sd \<and>
     sessions w3 = sessions w \<and> sessions_table w3 = sessions_table w \<and>
     callback_posts w3 = callback_posts w \<and>
     network_links_table w3 = network_links_table w"
proof (cases "sender msg = ''scammer''")
  case True
  obtain intel where "extract_intelligence ts (mtext msg) (intelligence sd) = Inr intel"
    using extract_intelligence_returns by blast
  with True show ?thesis
    by (simp add: extraction_block_def save_all_intelligence_frame)
next
  case False
  then show ?thesis by (simp add: extraction_block_def)
qed

lemma first_message_block_frame:
  "message_count (first_message_block t sd) = message_count sd \<and>
   callback_sent (first_message_block t sd) = callback_sent sd \<and>
   current_stage (first_message_block t sd) = current_stage sd \<and>
   intelligence (first_message_block t sd) = intelligence sd"
  by (simp add: first_message_block_def split: prod.splits)

lemma first_message_block_persona:
  "persona (first_message_block t sd) =
     (if message_count sd = 1 then select_persona (snd (snd (detect_scam_intent t)))
      else persona sd)"
  by (simp add: first_message_block_def split: prod.splits)

lemma first_message_block_flag:
  "scam_detected (first_message_block t sd) =
     (if message_count sd = 1 then fst (detect_scam_intent t) else scam_detected sd)"
  by (simp add: first_message_block_def split: prod.splits)

lemma reply_block_frame:
  "message_count (snd (reply_block cfg e t sd)) = message_count sd \<and>
   scam_detected (snd (reply_block cfg e t sd)) = scam_detected sd \<and>
   callback_sent (snd (reply_block cfg e t sd)) = callback_sent sd \<and>
   persona (snd (reply_block cfg e t sd)) = persona sd \<and>
   intelligence (snd (reply_block cfg e t sd)) = intelligence sd"
  by (simp add: reply_block_def generate_agent_response_def build_agent_prompt_def Let_def
      split: prod.splits)

lemma reply_block_stage:
  "current_stage (snd (reply_block cfg e t sd)) =
     (if GROQ_API_KEY cfg = [] then current_stage sd else detect_scam_stage sd t)"
  by (simp add: reply_block_def generate_agent_response_def build_agent_prompt_def Let_def
      split: prod.splits)

lemma finalization_block_frame:
  "message_count (fst (finalization_block sid e (sd, w))) = message_count sd \<and>
   scam_detected (fst (finalization_block sid e (sd, w))) = scam_detected sd \<and>
   persona (fst (finalization_block sid e (sd, w))) = persona sd \<and>
   current_stage (fst (finalization_block sid e (sd, w))) = current_stage sd \<and>
   intelligence (fst (finalization_block sid e (sd, w))) = intelligence sd \<and>
   sessions (snd (finalization_block sid e (sd, w))) = sessions w"
  by (simp add: finalization_block_def send_final_callback_def Let_def end_session_def
      build_network_links_def split: prod.splits sum.splits option.splits)

lemma finalization_block_posts:
  "callback_posts (snd (finalization_block sid e (sd, w))) =
     (if scam_detected sd \<and> \<not> callback_sent sd \<and> should_finalize_session sd
      then callback_posts w @ [final_payload sid sd] else callback_posts w)"
  by (simp add: finalization_block_def send_final_callback_def Let_def end_session_def
      build_network_links_def split: prod.splits sum.splits option.splits)


lemma finalization_block_links:
  "network_links_table (snd (finalization_block sid e (sd, w))) =
     (if scam_detected sd \<and> \<not> callback_sent sd \<and> should_finalize_session sd
      then foldl insert_link (network_links_table w) (link_rows sid (all_items (intelligence sd)))
      else network_links_table w)"
  by (simp add: finalization_block_def send_final_callback_def Let_def end_session_def
      build_network_links_def split: prod.splits sum.splits option.splits)

lemma finalization_block_sent:
  "callback_sent (fst (finalization_block sid e (sd, w))) =
     (if scam_detected sd \<and> \<not> callback_sent sd \<and> should_finalize_session sd
      then (case callback_result e of Inl err \<Rightarrow> False | Inr code \<Rightarrow> True)
      else callback_sent sd)"
  by (simp add: finalization_block_def send_final_callback_def Let_def
      split: prod.splits sum.splits)

lemma handler_step:
  assumes key: "x_api_key = Some (API_KEY_SECRET cfg)"
  shows "\<exists>response w' sd'.
     honeypot_conversation cfg e request x_api_key w = Inr (response, w') \<and>
     sessions w' = (sessions w)(sessionId request \<mapsto> sd') \<and>
     message_count sd' = message_count (session_before w (sessionId request)) + 1 \<and>
     persona sd' =
       (if message_count (session_before w (sessionId request)) = 0
        then select_persona (snd (snd (detect_scam_intent (mtext (message request)))))
        else persona (session_before w (sessionId request))) \<and>
     scam_detected sd' =
       (if message_count (session_before w (sessionId request)) = 0
        then fst (detect_scam_intent (mtext (message request)))
        else scam_detected (session_before w (sessionId request))) \<and>
     (GROQ_API_KEY cfg = [] \<longrightarrow>
        current_stage sd' = current_stage (session_before w (sessionId request))) \<and>
     callback_posts w' =
       (if scam_detected sd' \<and> \<not> callback_already_sent w (sessionId request) \<and>
           should_finalize_session sd'
        then callback_posts w @ [final_payload (sessionId request) sd']
        else callback_posts w) \<and>
     network_links_table w' =
       (if scam_detected sd' \<and> \<not> callback_already_sent w (sessionId request) \<and>
           should_finalize_session sd'
        then foldl insert_link (network_links_table w)
               (link_rows (sessionId request) (all_items (intelligence sd')))
        else network_links_table w) \<and>
     callback_sent sd' =
       (if scam_detected sd' \<and> \<not> callback_already_sent w (sessionId request) \<and>
           should_finalize_session sd'
        then (case callback_result e of Inl err \<Rightarrow> False | Inr code \<Rightarrow> True)
        else callback_already_sent w (sessionId request))"
proof -
  define sid where "sid = sessionId request"
  define msg where "msg = message request"
  define sd0 where "sd0 = session_before w sid"
  define sd1 where "sd1 = receive_message msg sd0"
  define w1 where "w1 = save_message sid (sender msg) (mtext msg) (save_session sid sd1 w)"
  define sd2 where "sd2 = first_message_block (mtext msg) sd1"
  have sent0: "callback_already_sent w sid = callback_sent sd0"
    by (simp add: callback_already_sent_def sd0_def session_before_def new_session_def
        split: option.splits)
  have w1: "sessions w1 = sessions w" "callback_posts w1 = callback_posts w"
    "network_links_table w1 = network_links_table w"
    by (simp_all add: w1_def save_message_def save_session_def)
  have sd1: "message_count sd1 = message_count sd0 + 1" "persona sd1 = persona sd0"
    "scam_detected sd1 = scam_detected sd0" "callback_sent sd1 = callback_sent sd0"
    "current_stage sd1 = current_stage sd0"
    by (simp_all add: sd1_def receive_message_def)
  have sd2: "message_count sd2 = message_count sd0 + 1" "callback_sent sd2 = callback_sent sd0"
    "current_stage sd2 = current_stage sd0"
    "persona sd2 = (if message_count sd0 = 0
       then select_persona (snd (snd (detect_scam_intent (mtext msg)))) else persona sd0)"
    "scam_detected sd2 = (if message_count sd0 = 0
       then fst (detect_scam_intent (mtext msg)) else scam_detected sd0)"
    using sd1
    by (simp_all add: sd2_def first_message_block_frame first_message_block_persona
        first_message_block_flag)
  from extraction_block_returns [of "now_ms e" sid msg sd2 w1] obtain sd3 w3 where
    all3: "extraction_block (now_ms e) sid msg (sd2, w1) = Inr (sd3, w3) \<and>
     message_count sd3 = message_count sd2 \<and> scam_detected sd3 = scam_detected sd2 \<and>
     callback_sent sd3 = callback_sent sd2 \<and> persona sd3 = persona sd2 \<and>
     current_stage sd3 = current_stage sd2 \<and>
     sessions w3 = sessions w1 \<and> sessions_table w3 = sessions_table w1 \<and>
     callback_posts w3 = callback_posts w1 \<and>
     network_links_table w3 = network_links_table w1"
    by (elim exE)
  then have ex: "extraction_block (now_ms e) sid msg (sd2, w1) = Inr (sd3, w3)"
    and sd3: "message_count sd3 = message_count sd2" "scam_detected sd3 = scam_detected sd2"
      "callback_sent sd3 = callback_sent sd2" "persona sd3 = persona sd2"
      "current_stage sd3 = current_stage sd2"
    and w3: "sessions w3 = sessions w1" "callback_posts w3 = callback_posts w1"
      "network_links_table w3 = network_links_table w1"
    by simp_all
  obtain agent_reply sd4 where rb: "reply_block cfg e (mtext msg) sd3 = (agent_reply, sd4)"
    by (cases "reply_block cfg e (mtext msg) sd3")
  then have sd4_eq: "sd4 = snd (reply_block cfg e (mtext msg) sd3)" by simp
  have sd4: "message_count sd4 = message_count sd3" "scam_detected sd4 = scam_detected sd3"
    "callback_sent sd4 = callback_sent sd3" "persona sd4 = persona sd3"
    "GROQ_API_KEY cfg = [] \<longrightarrow> current_stage sd4 = current_stage sd3"
    unfolding sd4_eq by (simp_all add: reply_block_frame reply_block_stage)
  obtain sd5 w5 where fb: "finalization_block sid e (sd4, w3) = (sd5, w5)"
    by (cases "finalization_block sid e (sd4, w3)")
  then have sd5_eq: "sd5 = fst (finalization_block sid e (sd4, w3))"
    and w5_eq: "w5 = snd (finalization_block sid e (sd4, w3))" by simp_all
  have sd5: "message_count sd5 = message_count sd4" "scam_detected sd5 = scam_detected sd4"
    "persona sd5 = persona sd4" "current_stage sd5 = current_stage sd4"
    "intelligence sd5 = intelligence sd4"
    unfolding sd5_eq by (simp_all add: finalization_block_frame)
  have w5: "sessions w5 = sessions w3"
    unfolding w5_eq by (simp add: finalization_block_frame)
  have posts: "callback_posts w5 =
     (if scam_detected sd4 \<and> \<not> callback_sent sd4 \<and> should_finalize_session sd4
      then callback_posts w3 @ [final_payload sid sd4] else callback_posts w3)"
    unfolding w5_eq by (rule finalization_block_posts)
  have links: "network_links_table w5 =
     (if scam_detected sd4 \<and> \<not> callback_sent sd4 \<and> should_finalize_session sd4
      then foldl insert_link (network_links_table w3) (link_rows sid (all_items (intelligence sd4)))
      else network_links_table w3)"
    unfolding w5_eq by (rule finalization_block_links)
  have sent: "callback_sent sd5 =
     (if scam_detected sd4 \<and> \<not> callback_sent sd4 \<and> should_finalize_session sd4
      then (case callback_result e of Inl err \<Rightarrow> False | Inr code \<Rightarrow> True)
      else callback_sent sd4)"
    unfolding sd5_eq by (rule finalization_block_sent)
  have same: "should_finalize_session sd5 = should_finalize_session sd4"
    "final_payload sid sd5 = final_payload sid sd4"
    using sd5 by (simp_all add: should_finalize_session_def final_payload_def)
  have res: "honeypot_conversation cfg e request x_api_key w =
      Inr (\<lparr>status = ''success'', reply = agent_reply\<rparr>,
           w5\<lparr>sessions := (sessions w5)(sid \<mapsto> sd5)\<rparr>)"
    using key ex rb fb
    by (simp add: honeypot_conversation_def Let_def sid_def msg_def sd0_def sd1_def w1_def
        sd2_def session_before_def)
  show ?thesis
    apply (rule exI [of _ "\<lparr>status = ''success'', reply = agent_reply\<rparr>"])
    apply (rule exI [of _ "w5\<lparr>sessions := (sessions w5)(sid \<mapsto> sd5)\<rparr>"])
    apply (rule exI [of _ sd5])
    using res sd2 sd3 sd4 sd5 w1 w3 w5 posts links sent same sent0
    by (simp add: sid_def [symmetric] msg_def [symmetric] sd0_def [symmetric])
qed

section \<open>Finalization\<close>

text \<open>
  Claim C2, as amended. After every message the handler accepts, finalization fires (one
  callback is posted) exactly when the session's scam flag is set, its callback flag was not
  set before, and the finalization predicate holds for the session as it is after the message;
  otherwise nothing is posted. The predicate holds exactly when the message count is at least
  15, or at least 8 with a bank account, a payment handle, a link or two phone numbers
  extracted. So below 8 messages it never fires.
\<close>

theorem finalization_after_each_message:
  assumes "x_api_key = Some (API_KEY_SECRET cfg)"
  shows "\<exists>response w' sd'.
     honeypot_conversation cfg e request x_api_key w = Inr (response, w') \<and>
     sessions w' (sessionId request) = Some sd' \<and>
     callback_posts w' =
       (if scam_detected sd' \<and> \<not> callback_already_sent w (sessionId request) \<and>
           should_finalize_session sd'
        then callback_posts w @ [final_payload (sessionId request) sd']
        else callback_posts w) \<and>
     should_finalize_session sd' =
       (message_count sd' \<ge> 15 \<or>
        (message_count sd' \<ge> 8 \<and>
         (length (bankAccounts (intelligence sd')) \<ge> 1 \<or>
          length (upiIds (intelligence sd')) \<ge> 1 \<or>
          length (phishingLinks (intelligence sd')) \<ge> 1 \<or>
          length (phoneNumbers (intelligence sd')) \<ge> 2)))"
proof -
  from handler_step [OF assms, of e request w] obtain response w' sd' where
    r: "honeypot_conversation cfg e request x_api_key w = Inr (response, w')"
    and s: "sessions w' = (sessions w)(sessionId request \<mapsto> sd')"
    and p: "callback_posts w' =
       (if scam_detected sd' \<and> \<not> callback_already_sent w (sessionId request) \<and>
           should_finalize_session sd'
        then callback_posts w @ [final_payload (sessionId request) sd']
        else callback_posts w)"
    by auto
  have "should_finalize_session sd' =
       (message_count sd' \<ge> 15 \<or>
        (message_count sd' \<ge> 8 \<and>
         (length (bankAccounts (intelligence sd')) \<ge> 1 \<or>
          length (upiIds (intelligence sd')) \<ge> 1 \<or>
          length (phishingLinks (intelligence sd')) \<ge> 1 \<or>
          length (phoneNumbers (intelligence sd')) \<ge> 2)))"
  proof -
    have "\<And>n::nat. (1 \<le> n) = (0 < n)" "\<And>n::nat. (2 \<le> n) = (1 < n)" by auto
    then show ?thesis by (simp add: should_finalize_session_def Let_def)
  qed
  with r s p show ?thesis by (intro exI [of _ response] exI [of _ w'] exI [of _ sd']) simp
qed


lemma session_before_Some: "sessions w sid = Some sd \<Longrightarrow> session_before w sid = sd"
  by (simp add: session_before_def)

lemma session_before_None: "sessions w sid = None \<Longrightarrow> session_before w sid = new_session"
  by (simp add: session_before_def)

lemma run_quiet_session:
  assumes "\<forall>x\<in>set reqs. sessionId (fst (snd x)) = sid \<and> snd (snd x) = Some (API_KEY_SECRET cfg)"
    and "sessions w sid = Some sd" and "1 \<le> message_count sd" and "\<not> scam_detected sd"
  shows "\<exists>w' sd'. run cfg reqs w = Inr w' \<and> sessions w' sid = Some sd' \<and>
           \<not> scam_detected sd' \<and>
           message_count sd' = message_count sd + int (length reqs) \<and>
           callback_posts w' = callback_posts w"
  using assms
proof (induction reqs arbitrary: w sd)
  case Nil
  then show ?case by simp
next
  case (Cons x xs)
  obtain e rq k where x: "x = (e, rq, k)" by (cases x)
  with Cons.prems(1) have rq: "sessionId rq = sid" and k: "k = Some (API_KEY_SECRET cfg)"
    by simp_all
  from handler_step [OF k, of e rq w] obtain response w1 sd1 where
    r: "honeypot_conversation cfg e rq k w = Inr (response, w1)"
    and s: "sessions w1 = (sessions w)(sid \<mapsto> sd1)"
    and c: "message_count sd1 = message_count sd + 1"
    and d: "\<not> scam_detected sd1"
    and p: "callback_posts w1 = callback_posts w"
    using Cons.prems(2,3,4) rq by (auto simp: session_before_Some)
  from s have s1: "sessions w1 sid = Some sd1" by simp
  from c Cons.prems(3) have c1: "1 \<le> message_count sd1" by simp
  from Cons.prems(1) have rest:
    "\<forall>x\<in>set xs. sessionId (fst (snd x)) = sid \<and> snd (snd x) = Some (API_KEY_SECRET cfg)"
    by simp
  from Cons.IH [OF rest s1 c1 d] obtain w' sd' where
    "run cfg xs w1 = Inr w'" "sessions w' sid = Some sd'" "\<not> scam_detected sd'"
    "message_count sd' = message_count sd1 + int (length xs)"
    "callback_posts w' = callback_posts w1"
    by blast
  with r c p x show ?case by simp
qed

lemma run_quiet_from_fresh:
  assumes fresh: "sessions w sid = None"
    and first: "sessionId rq = sid" "k = Some (API_KEY_SECRET cfg)"
    and quiet: "\<not> fst (detect_scam_intent (mtext (message rq)))"
    and rest: "\<forall>x\<in>set xs. sessionId (fst (snd x)) = sid \<and> snd (snd x) = Some (API_KEY_SECRET cfg)"
  shows "\<exists>w' sd'. run cfg ((e, rq, k) # xs) w = Inr w' \<and> sessions w' sid = Some sd' \<and>
           message_count sd' = 1 + int (length xs) \<and> callback_posts w' = callback_posts w"
proof -
  from handler_step [OF first(2), of e rq w] obtain response w1 sd1 where
    r: "honeypot_conversation cfg e rq k w = Inr (response, w1)"
    and s: "sessions w1 = (sessions w)(sid \<mapsto> sd1)"
    and c: "message_count sd1 = 1"
    and d: "\<not> scam_detected sd1"
    and p: "callback_posts w1 = callback_posts w"
    using fresh first(1) quiet by (auto simp: session_before_None new_session_def)
  from s have s1: "sessions w1 sid = Some sd1" by simp
  from c have c1: "1 \<le> message_count sd1" by simp
  from run_quiet_session [OF rest s1 c1 d] obtain w' sd' where
    "run cfg xs w1 = Inr w'" "sessions w' sid = Some sd'"
    "message_count sd' = message_count sd1 + int (length xs)"
    "callback_posts w' = callback_posts w1"
    by blast
  with r c p show ?thesis by simp
qed

lemma hello_is_quiet: "\<not> fst (detect_scam_intent ''hello'')"
  by code_simp

text \<open>
  Claim C2 as stated fails: a session whose first message did not set the scam flag reaches
  message count 15, where the predicate holds, and no callback has been posted.
\<close>

theorem finalization_gated_by_scam_flag:
  "(case run default_config (replicate 15 (scammer_says ''s1'' ''hello'')) empty_world of
      Inl err \<Rightarrow> False
    | Inr w \<Rightarrow>
        (case sessions w ''s1'' of
           None \<Rightarrow> False
         | Some sd \<Rightarrow>
             message_count sd = 15 \<and> should_finalize_session sd \<and> callback_posts w = []))"
proof -
  have rep15: "replicate 15 (scammer_says ''s1'' ''hello'') =
      (sample_env,
       \<lparr>sessionId = ''s1'', message = \<lparr>sender = ''scammer'', mtext = ''hello'', timestamp = 0\<rparr>\<rparr>,
       Some ''sk_honeypot_2024_secure_key'') # replicate 14 (scammer_says ''s1'' ''hello'')"
    by (simp add: scammer_says_def numeral_eq_Suc)
  have "\<exists>w' sd'. run default_config
       ((sample_env,
         \<lparr>sessionId = ''s1'', message = \<lparr>sender = ''scammer'', mtext = ''hello'', timestamp = 0\<rparr>\<rparr>,
         Some ''sk_honeypot_2024_secure_key'') # replicate 14 (scammer_says ''s1'' ''hello''))
       empty_world = Inr w' \<and> sessions w' ''s1'' = Some sd' \<and>
       message_count sd' = 1 + int (length (replicate 14 (scammer_says ''s1'' ''hello''))) \<and>
       callback_posts w' = callback_posts empty_world"
    by (rule run_quiet_from_fresh)
       (simp_all add: empty_world_def default_config_def hello_is_quiet scammer_says_def)
  then obtain w' sd' where
    "run default_config (replicate 15 (scammer_says ''s1'' ''hello'')) empty_world = Inr w'"
    "sessions w' ''s1'' = Some sd'" "message_count sd' = 15" "callback_posts w' = []"
    unfolding rep15 by (auto simp: empty_world_def)
  then show ?thesis by (simp add: should_finalize_session_def)
qed


text \<open>The amended claim C2 at the first message of a fresh session.\<close>

theorem finalization_after_each_message_witness:
  "\<exists>response w' sd'.
     honeypot_conversation default_config sample_env
       \<lparr>sessionId = ''s1'', message = \<lparr>sender = ''scammer'', mtext = ''hello'', timestamp = 0\<rparr>\<rparr>
       (Some ''sk_honeypot_2024_secure_key'') empty_world = Inr (response, w') \<and>
     sessions w' ''s1'' = Some sd' \<and>
     callback_posts w' =
       (if scam_detected sd' \<and> \<not> callback_already_sent empty_world ''s1'' \<and>
           should_finalize_session sd'
        then callback_posts empty_world @ [final_payload ''s1'' sd']
        else callback_posts empty_world) \<and>
     should_finalize_session sd' =
       (message_count sd' \<ge> 15 \<or>
        (message_count sd' \<ge> 8 \<and>
         (length (bankAccounts (intelligence sd')) \<ge> 1 \<or>
          length (upiIds (intelligence sd')) \<ge> 1 \<or>
          length (phishingLinks (intelligence sd')) \<ge> 1 \<or>
          length (phoneNumbers (intelligence sd')) \<ge> 2)))"
proof -
  have k: "Some ''sk_honeypot_2024_secure_key'' = Some (API_KEY_SECRET default_config)"
    by (simp add: default_config_def)
  have sid: "sessionId \<lparr>sessionId = ''s1'',
      message = \<lparr>sender = ''scammer'', mtext = ''hello'', timestamp = 0\<rparr>\<rparr> = ''s1''"
    by simp
  show ?thesis
    using finalization_after_each_message [OF k, of sample_env
        "\<lparr>sessionId = ''s1'', message = \<lparr>sender = ''scammer'', mtext = ''hello'', timestamp = 0\<rparr>\<rparr>"
        empty_world]
    by (simp only: sid)
qed

section \<open>Network links at finalization\<close>

text \<open>
  Links are only made when finalization fires, together with a callback. So in every world
  reached from the empty one, a session for which no callback was posted has no link: at its
  first finalization the table holds none of its rows.
\<close>

lemma link_rows_session: "row \<in> set (link_rows sid items) \<Longrightarrow> snd (snd row) = sid"
  by (auto simp: link_rows_def)

lemma step_links_backed:
  assumes r: "honeypot_conversation cfg e request x_api_key w = Inr (response, w')"
    and inv: "links_backed w"
  shows "links_backed w'"
proof -
  from r have key: "x_api_key = Some (API_KEY_SECRET cfg)"
    by (simp add: honeypot_conversation_def split: if_splits)
  from handler_step [OF key, of e request w] r obtain sd' where
    p: "callback_posts w' =
       (if scam_detected sd' \<and> \<not> callback_already_sent w (sessionId request) \<and>
           should_finalize_session sd'
        then callback_posts w @ [final_payload (sessionId request) sd']
        else callback_posts w)"
    and l: "network_links_table w' =
       (if scam_detected sd' \<and> \<not> callback_already_sent w (sessionId request) \<and>
           should_finalize_session sd'
        then foldl insert_link (network_links_table w)
               (link_rows (sessionId request) (all_items (intelligence sd')))
        else network_links_table w)"
    by auto
  show ?thesis
  proof (cases "scam_detected sd' \<and> \<not> callback_already_sent w (sessionId request) \<and>
           should_finalize_session sd'")
    case False
    with p l inv show ?thesis by (simp add: links_backed_def)
  next
    case True
    with p have p': "callback_posts w' = callback_posts w @ [final_payload (sessionId request) sd']"
      by simp
    from True l have l': "set (network_links_table w') =
        set (network_links_table w) \<union> set (link_rows (sessionId request) (all_items (intelligence sd')))"
      by (simp add: foldl_insert_link_set)
    have "p_sessionId (final_payload (sessionId request) sd') = sessionId request"
      by (simp add: final_payload_def)
    with inv p' l' show ?thesis
      by (auto simp: links_backed_def list_all_iff list_ex_iff dest: link_rows_session)
  qed
qed

lemma run_links_backed:
  "run cfg reqs w = Inr w' \<Longrightarrow> links_backed w \<Longrightarrow> links_backed w'"
proof (induction reqs arbitrary: w)
  case Nil
  then show ?case by simp
next
  case (Cons x xs)
  obtain e rq k where x: "x = (e, rq, k)" by (cases x)
  with Cons.prems(1) obtain response w1 where
    r: "honeypot_conversation cfg e rq k w = Inr (response, w1)" and rest: "run cfg xs w1 = Inr w'"
    by (auto split: sum.splits)
  from step_links_backed [OF r Cons.prems(2)] have "links_backed w1" .
  from Cons.IH [OF rest this] show ?case .
qed

lemma unfinalized_session_has_no_links:
  assumes "run cfg reqs empty_world = Inr w"
    and "\<forall>p\<in>set (callback_posts w). p_sessionId p \<noteq> sid"
  shows "\<forall>row\<in>set (network_links_table w). snd (snd row) \<noteq> sid"
proof -
  have "links_backed empty_world" by (simp add: links_backed_def empty_world_def)
  from run_links_backed [OF assms(1) this] assms(2) show ?thesis
    by (auto simp: links_backed_def list_all_iff list_ex_iff)
qed






section \<open>Persona\<close>

lemma step_keeps_persona:
  assumes key: "k = Some (API_KEY_SECRET cfg)"
    and s: "sessions w sid = Some sd" and c: "1 \<le> message_count sd"
  shows "\<exists>response w' sd'. honeypot_conversation cfg e rq k w = Inr (response, w') \<and>
           sessions w' sid = Some sd' \<and> persona sd' = persona sd \<and> 1 \<le> message_count sd'"
proof -
  from handler_step [OF key, of e rq w] obtain response w1 sd1 where
    r: "honeypot_conversation cfg e rq k w = Inr (response, w1)"
    and s1: "sessions w1 = (sessions w)(sessionId rq \<mapsto> sd1)"
    and c1: "message_count sd1 = message_count (session_before w (sessionId rq)) + 1"
    and p1: "persona sd1 =
       (if message_count (session_before w (sessionId rq)) = 0
        then select_persona (snd (snd (detect_scam_intent (mtext (message rq)))))
        else persona (session_before w (sessionId rq)))"
    by auto
  show ?thesis
  proof (cases "sessionId rq = sid")
    case True
    with s have "session_before w (sessionId rq) = sd" by (simp add: session_before_Some)
    with c c1 p1 have "persona sd1 = persona sd" "1 \<le> message_count sd1" by simp_all
    with r s1 True show ?thesis by simp
  next
    case False
    with s1 s have "sessions w1 sid = Some sd" by simp
    with r c show ?thesis by simp
  qed
qed

lemma run_keeps_persona:
  assumes "\<forall>x\<in>set reqs. snd (snd x) = Some (API_KEY_SECRET cfg)"
    and "sessions w sid = Some sd" and "1 \<le> message_count sd"
  shows "\<exists>w' sd'. run cfg reqs w = Inr w' \<and> sessions w' sid = Some sd' \<and>
           persona sd' = persona sd"
  using assms
proof (induction reqs arbitrary: w sd)
  case Nil
  then show ?case by simp
next
  case (Cons x xs)
  obtain e rq k where x: "x = (e, rq, k)" by (cases x)
  with Cons.prems(1) have k: "k = Some (API_KEY_SECRET cfg)" by simp
  from step_keeps_persona [OF k Cons.prems(2,3), of e rq] obtain response w1 sd1 where
    r: "honeypot_conversation cfg e rq k w = Inr (response, w1)"
    and s1: "sessions w1 sid = Some sd1" and p1: "persona sd1 = persona sd"
    and c1: "1 \<le> message_count sd1"
    by blast
  from Cons.prems(1) have rest: "\<forall>x\<in>set xs. snd (snd x) = Some (API_KEY_SECRET cfg)" by simp
  from Cons.IH [OF rest s1 c1] obtain w' sd' where
    "run cfg xs w1 = Inr w'" "sessions w' sid = Some sd'" "persona sd' = persona sd1"
    by blast
  with r p1 x show ?case by simp
qed

text \<open>
  Claim C8. When the first message of a new session is handled, the persona is chosen from the
  tags the scorer gives for that message; whatever accepted requests follow, for this or any
  other session, the session's persona is still that one.
\<close>

theorem persona_set_once:
  assumes fresh: "sessions w (sessionId request) = None"
    and key: "x_api_key = Some (API_KEY_SECRET cfg)"
    and keys: "\<forall>x\<in>set later. snd (snd x) = Some (API_KEY_SECRET cfg)"
  shows "\<exists>w' sd'. run cfg ((e, request, x_api_key) # later) w = Inr w' \<and>
           sessions w' (sessionId request) = Some sd' \<and>
           persona sd' = select_persona (snd (snd (detect_scam_intent (mtext (message request)))))"
proof -
  from handler_step [OF key, of e request w] obtain response w1 sd1 where
    r: "honeypot_conversation cfg e request x_api_key w = Inr (response, w1)"
    and s: "sessions w1 = (sessions w)(sessionId request \<mapsto> sd1)"
    and c: "message_count sd1 = 1"
    and p: "persona sd1 = select_persona (snd (snd (detect_scam_intent (mtext (message request)))))"
    using fresh by (auto simp: session_before_None new_session_def)
  from s have s1: "sessions w1 (sessionId request) = Some sd1" by simp
  from c have c1: "1 \<le> message_count sd1" by simp
  from run_keeps_persona [OF keys s1 c1] obtain w' sd' where
    "run cfg later w1 = Inr w'" "sessions w' (sessionId request) = Some sd'"
    "persona sd' = persona sd1"
    by blast
  with r p show ?thesis by simp
qed

lemma lottery_persona:
  "select_persona (snd (snd (detect_scam_intent ''You won a lottery prize''))) = EXCITED_SKEPTICAL \<and>
   select_persona (snd (snd (detect_scam_intent ''police will arrest you''))) = ELDERLY_CONFUSED"
  by code_simp

text \<open>Claim C8 on two messages whose tags would choose different personas.\<close>

theorem persona_set_once_witness:
  "\<exists>w' sd'. run default_config
       [scammer_says ''s1'' ''You won a lottery prize'',
        scammer_says ''s1'' ''police will arrest you''] empty_world = Inr w' \<and>
     sessions w' ''s1'' = Some sd' \<and> persona sd' = EXCITED_SKEPTICAL \<and>
     select_persona (snd (snd (detect_scam_intent ''police will arrest you''))) =
       ELDERLY_CONFUSED"
proof -
  have f: "sessions empty_world
      (sessionId \<lparr>sessionId = ''s1'',
         message = \<lparr>sender = ''scammer'', mtext = ''You won a lottery prize'', timestamp = 0\<rparr>\<rparr>) = None"
    by (simp add: empty_world_def)
  have k: "Some ''sk_honeypot_2024_secure_key'' = Some (API_KEY_SECRET default_config)"
    by (simp add: default_config_def)
  have ks: "\<forall>x\<in>set [scammer_says ''s1'' ''police will arrest you''].
      snd (snd x) = Some (API_KEY_SECRET default_config)"
    by (simp add: scammer_says_def default_config_def)
  show ?thesis
    using persona_set_once [OF f k ks, of sample_env] lottery_persona
    by (simp add: scammer_says_def)
qed

section \<open>Empty text, stored stage, session count\<close>

lemma plain_text_stage:
  "\<not> has_stage_keyword tx \<Longrightarrow>
     detect_scam_stage sd tx =
       (if length (bankAccounts (intelligence sd)) > 0 \<or> length (upiIds (intelligence sd)) > 0
        then CLOSING else EXPLORATORY)"
  by (simp add: has_stage_keyword_def stage_keywords_def detect_scam_stage_def any_in_def)

lemma empty_text_plain: "\<not> has_stage_keyword [] \<and> \<not> has_identifier []"
  by (simp add: has_stage_keyword_def stage_keywords_def any_in_def lower_def has_identifier_def
      re_search_def)

lemma empty_text_keywords:
  "foldl (add_keyword (lower [])) kws keyword_pairs = kws"
  by (simp add: keyword_pairs_def SCAM_PATTERNS_def add_keyword_def lower_def)

text \<open>
  Claim C9, as amended. For every text the extractor returns and raises nothing (the classifier
  has no step that could raise). When none of the four identifier patterns matches, the four
  item lists come back unchanged, and the empty text leaves the whole set unchanged. When no
  stage keyword occurs in the text, the empty text included, the classified stage is CLOSING
  if the session holds a bank account or a payment handle and EXPLORATORY otherwise.
\<close>

theorem text_without_signals_degrades:
  "(\<exists>S'. extract_intelligence ts tx S = Inr S' \<and>
      (\<not> has_identifier tx \<longrightarrow>
         bankAccounts S' = bankAccounts S \<and> upiIds S' = upiIds S \<and>
         phoneNumbers S' = phoneNumbers S \<and> phishingLinks S' = phishingLinks S) \<and>
      (tx = [] \<longrightarrow> S' = S)) \<and>
   (\<not> has_stage_keyword tx \<longrightarrow>
      detect_scam_stage sd tx =
        (if length (bankAccounts (intelligence sd)) > 0 \<or> length (upiIds (intelligence sd)) > 0
         then CLOSING else EXPLORATORY))"
proof -
  obtain S' where S': "extract_intelligence ts tx S = Inr S'"
    using extract_intelligence_returns by blast
  have same: "bankAccounts S' = bankAccounts S \<and> upiIds S' = upiIds S \<and>
      phoneNumbers S' = phoneNumbers S \<and> phishingLinks S' = phishingLinks S"
    if "\<not> has_identifier tx"
    using that S'
    by (auto simp: has_identifier_def re_search_def extract_intelligence_def Let_def)
  have empty: "S' = S" if "tx = []"
    using that S' by (auto simp: extract_intelligence_def empty_text_keywords)
  from S' same empty plain_text_stage show ?thesis by blast
qed

text \<open>
  The amended claim C9 on the empty text and on a text of punctuation, in a session without
  intelligence and in one that holds a bank account.
\<close>

theorem text_without_signals_degrades_witness:
  "extract_intelligence 0 [] three_items = Inr three_items \<and>
   detect_scam_stage new_session [] = EXPLORATORY \<and>
   (\<exists>S'. extract_intelligence 0 ''?? !!'' three_items = Inr S' \<and>
      bankAccounts S' = bankAccounts three_items \<and> upiIds S' = upiIds three_items \<and>
      phoneNumbers S' = phoneNumbers three_items \<and> phishingLinks S' = phishingLinks three_items) \<and>
   detect_scam_stage (new_session\<lparr>intelligence := three_items\<rparr>) ''?? !!'' = CLOSING"
proof -
  have q: "\<not> has_identifier ''?? !!'' \<and> \<not> has_stage_keyword ''?? !!''"
    by code_simp
  have n: "\<not> (length (bankAccounts (intelligence new_session)) > 0 \<or>
              length (upiIds (intelligence new_session)) > 0)"
    by (simp add: new_session_def no_intelligence_def)
  have t: "length (bankAccounts (intelligence (new_session\<lparr>intelligence := three_items\<rparr>))) > 0"
    by (simp add: three_items_def)
  from text_without_signals_degrades [of 0 "[]" three_items new_session] empty_text_plain n
  have 1: "extract_intelligence 0 [] three_items = Inr three_items \<and>
      detect_scam_stage new_session [] = EXPLORATORY"
    by auto
  from text_without_signals_degrades [of 0 "''?? !!''" three_items
      "new_session\<lparr>intelligence := three_items\<rparr>"] q t
  have 2: "(\<exists>S'. extract_intelligence 0 ''?? !!'' three_items = Inr S' \<and>
      bankAccounts S' = bankAccounts three_items \<and> upiIds S' = upiIds three_items \<and>
      phoneNumbers S' = phoneNumbers three_items \<and> phishingLinks S' = phishingLinks three_items) \<and>
     detect_scam_stage (new_session\<lparr>intelligence := three_items\<rparr>) ''?? !!'' = CLOSING"
    by auto
  from 1 2 show ?thesis by blast
qed

text \<open>
  Claim C9 as stated fails: after a message that gave a bank account, an empty message is
  classified as CLOSING, and CLOSING is stored as the stage.
\<close>

theorem empty_text_closing:
  "(case run groq_config
           [scammer_says ''s1'' ''my account number is 123456789012'',
            scammer_says ''s1'' ''''] empty_world of
      Inl err \<Rightarrow> False
    | Inr w \<Rightarrow>
        (case sessions w ''s1'' of
           None \<Rightarrow> False
         | Some sd \<Rightarrow> current_stage sd = CLOSING \<and> detect_scam_stage sd '''' = CLOSING))"
  by code_simp

text \<open>
  Claim C7 at a failing input: under the default configuration, which has no key for the
  language model, the handler returns the fallback reply before the prompt is built, and the
  stored stage of the session stays EXPLORATORY although the classifier gives HOOK for the
  message.
\<close>

theorem stage_not_stored_without_api_key:
  "(case honeypot_conversation default_config sample_env
           \<lparr>sessionId = ''s1'',
              message = \<lparr>sender = ''scammer'', mtext = ''URGENT your account is blocked'',
                         timestamp = 0\<rparr>\<rparr>
           (Some ''sk_honeypot_2024_secure_key'') empty_world of
      Inl err \<Rightarrow> False
    | Inr (response, w) \<Rightarrow>
        (case sessions w ''s1'' of
           None \<Rightarrow> False
         | Some sd \<Rightarrow>
             current_stage sd = EXPLORATORY \<and>
             detect_scam_stage sd ''URGENT your account is blocked'' = HOOK))"
  by code_simp

text \<open>
  Claim C1 at a failing input: one session, two messages, the payment handle in the first
  only. Every item of the session is saved again after the second message, and the
  identifier's session count is 2.
\<close>

theorem session_count_counts_messages:
  "(case run default_config
           [scammer_says ''s1'' ''pay to rewards@paytm'', scammer_says ''s1'' ''ok'']
           empty_world of
      Inl err \<Rightarrow> False
    | Inr w \<Rightarrow> map_option session_count (scammers_table w ''rewards@paytm'') = Some 2)"
  by code_simp

end
